theory Spec2Isabelle
  imports Complex_Main "HOL-Library.Word" "HOL-Library.Multiset"
begin

section \<open>Strings of the JavaScript runtime\<close>

text \<open>
  A JavaScript string is a sequence of 16-bit code units. Literals of the source are
  written with \<open>str\<close>, which maps every character of an ASCII literal to its code unit.
  A string is truthy exactly when it is not empty.
\<close>

type_synonym code_unit = "16 word"
type_synonym jsstring = "code_unit list"

definition str :: "string \<Rightarrow> jsstring" where
  "str s = map of_char s"

text \<open>
  \<open>String.prototype.trim\<close> removes white space and line terminators from both ends:
  TAB, LF, VT, FF, CR, SP, NBSP, U+1680, U+2000 to U+200A, U+2028, U+2029, U+202F,
  U+205F, U+3000 and U+FEFF.
\<close>

definition is_line_terminator :: "code_unit \<Rightarrow> bool" where
  "is_line_terminator c = (c = 0x000A \<or> c = 0x000D \<or> c = 0x2028 \<or> c = 0x2029)"

definition is_white_space :: "code_unit \<Rightarrow> bool" where
  "is_white_space c =
     (c = 0x0009 \<or> c = 0x000B \<or> c = 0x000C \<or> c = 0x0020 \<or> c = 0x00A0 \<or> c = 0x1680
      \<or> (0x2000 \<le> c \<and> c \<le> 0x200A) \<or> c = 0x202F \<or> c = 0x205F \<or> c = 0x3000
      \<or> c = 0xFEFF \<or> is_line_terminator c)"

definition trim :: "jsstring \<Rightarrow> jsstring" where
  "trim s = rev (dropWhile is_white_space (rev (dropWhile is_white_space s)))"

section \<open>Data model (the type declarations of the repository)\<close>

text \<open>
  The interfaces \<open>WordDefinition\<close>, \<open>AdditionalMeaning\<close>, \<open>ChatMessage\<close>, \<open>SavedItem\<close> and
  \<open>StoryQuiz\<close> and the enumeration \<open>SupportedLanguage\<close>. Field names that are keywords or
  constants of HOL, or that two interfaces share, carry a prefix: \<open>definition\<close> of
  \<open>WordDefinition\<close> is \<open>wd_definition\<close>; \<open>context\<close> and \<open>definition\<close> of
  \<open>AdditionalMeaning\<close> are \<open>am_context\<close> and \<open>am_definition\<close>; \<open>id\<close> and \<open>text\<close> of
  \<open>ChatMessage\<close> are \<open>msg_id\<close> and \<open>msg_text\<close>; \<open>id\<close>, \<open>word\<close> and \<open>definition\<close> of
  \<open>SavedItem\<close> are \<open>item_id\<close>, \<open>item_word\<close> and \<open>item_definition\<close>.
\<close>

record WordDefinition =
  word :: jsstring
  phonetic :: jsstring
  partOfSpeech :: jsstring
  wd_definition :: jsstring
  originalDefinition :: jsstring
  examples :: "jsstring list"
  synonyms :: "jsstring list"
  etymology :: jsstring
  vibes :: "jsstring list"

record AdditionalMeaning =
  am_context :: jsstring
  am_definition :: jsstring

datatype Role = User | Model

record ChatMessage =
  msg_id :: jsstring
  role :: Role
  msg_text :: jsstring

record SavedItem =
  item_id :: jsstring
  item_word :: jsstring
  imageUrl :: jsstring
  item_definition :: jsstring
  timestamp :: nat

record StoryQuiz =
  title :: jsstring
  content :: jsstring
  wordsUsed :: "jsstring list"

datatype SupportedLanguage =
  ENGLISH | SPANISH | FRENCH | GERMAN | CHINESE | JAPANESE | KOREAN | HINDI | ARABIC
  | PORTUGUESE | RUSSIAN | ITALIAN

datatype View = Search | Wordbook

datatype Feedback = Like | Dislike

text \<open>
  The state of the component \<open>App\<close>: one field for every \<open>useState\<close> hook. A setter
  call of the source is an update of the field. \<open>imageFeedbacks\<close> is the object used as
  a dictionary from image reference to feedback value.
\<close>

record app_state =
  view :: View
  query :: jsstring
  targetLanguage :: SupportedLanguage
  nativeLanguage :: SupportedLanguage
  wordData :: "WordDefinition option"
  gallery :: "jsstring list"
  activeImageIndex :: nat
  additionalMeanings :: "AdditionalMeaning list option"
  imageFeedbacks :: "jsstring \<rightharpoonup> Feedback"
  savedItems :: "SavedItem list"
  storyQuiz :: "StoryQuiz option"
  loadingStory :: bool
  loadingWord :: bool
  loadingImage :: bool
  loadingAudio :: bool
  loadingMoreMeanings :: bool
  loadingNewImage :: bool
  isChatOpen :: bool
  chatMessages :: "ChatMessage list"
  chatInput :: jsstring
  isChatSending :: bool

text \<open>
  An error thrown by a gateway call, with its message.
\<close>

datatype error = Error string

text \<open>
  \<open>gallery[activeImageIndex]\<close>: reading past the end of an array gives \<open>undefined\<close>,
  here \<open>None\<close>.
\<close>

definition currentImage :: "app_state \<Rightarrow> jsstring option" where
  "currentImage s =
     (if activeImageIndex s < length (gallery s) then Some (gallery s ! activeImageIndex s)
      else None)"

text \<open>
  \<open>Date.now().toString()\<close>: the decimal digits of the clock value.
\<close>

fun digits :: "nat \<Rightarrow> jsstring" where
  "digits n = (if n < 10 then [of_nat (48 + n)] else digits (n div 10) @ [of_nat (48 + n mod 10)])"

declare digits.simps [simp del]

section \<open>Collection store: \<open>handleSaveItem\<close>\<close>

text \<open>
  The updater passed to \<open>setSavedItems\<close>: the collection is returned as it is when an
  item with the word and the image of the new item is there, and the new item is put in
  front otherwise.
\<close>

definition save_updater :: "SavedItem \<Rightarrow> SavedItem list \<Rightarrow> SavedItem list" where
  "save_updater newItem prev =
     (if list_ex (\<lambda>item. item_word item = item_word newItem \<and> imageUrl item = imageUrl newItem) prev
      then prev else newItem # prev)"

text \<open>
  \<open>handleSaveItem\<close>. It returns at once when no definition is loaded or no image is
  displayed (\<open>currentImage\<close> is \<open>undefined\<close> or the empty string). The new item reads
  the clock twice: \<open>now_id\<close> is the value read for the identifier and \<open>now\<close> the value
  read for the time stamp.
\<close>

definition handleSaveItem :: "nat \<Rightarrow> nat \<Rightarrow> app_state \<Rightarrow> app_state" where
  "handleSaveItem now_id now s =
     (case wordData s of
        None \<Rightarrow> s
      | Some wd \<Rightarrow>
          (case currentImage s of
             None \<Rightarrow> s
           | Some img \<Rightarrow>
               if img = [] then s
               else
                 let newItem = \<lparr>item_id = digits now_id, item_word = word wd, imageUrl = img,
                                item_definition = wd_definition wd, timestamp = now\<rparr>
                 in s\<lparr>savedItems := save_updater newItem (savedItems s)\<rparr>))"

text \<open>
  The key of the uniqueness invariant of the collection.
\<close>

definition item_key :: "SavedItem \<Rightarrow> jsstring \<times> jsstring" where
  "item_key item = (item_word item, imageUrl item)"

section \<open>Per-image feedback: \<open>toggleFeedback\<close>\<close>

definition feedback_updater :: "jsstring \<Rightarrow> Feedback \<Rightarrow> (jsstring \<rightharpoonup> Feedback) \<Rightarrow> (jsstring \<rightharpoonup> Feedback)" where
  "feedback_updater currentUrl type prev =
     (if prev currentUrl = Some type then prev(currentUrl := None)
      else prev(currentUrl \<mapsto> type))"

definition toggleFeedback :: "Feedback \<Rightarrow> app_state \<Rightarrow> app_state" where
  "toggleFeedback type s =
     (case currentImage s of
        None \<Rightarrow> s
      | Some currentUrl \<Rightarrow>
          if currentUrl = [] then s
          else s\<lparr>imageFeedbacks := feedback_updater currentUrl type (imageFeedbacks s)\<rparr>)"

section \<open>Initial state\<close>

text \<open>
  The initial values of the hooks. The collection is read from local storage; \<open>items\<close>
  is what that read gives (the empty list when nothing is stored or the stored text does
  not parse).
\<close>

definition initial_state :: "SavedItem list \<Rightarrow> app_state" where
  "initial_state items =
     \<lparr>view = Search, query = [], targetLanguage = SPANISH, nativeLanguage = ENGLISH,
      wordData = None, gallery = [], activeImageIndex = 0, additionalMeanings = None,
      imageFeedbacks = Map.empty, savedItems = items, storyQuiz = None,
      loadingStory = False, loadingWord = False, loadingImage = False, loadingAudio = False,
      loadingMoreMeanings = False, loadingNewImage = False, isChatOpen = False,
      chatMessages = [], chatInput = [], isChatSending = False\<rparr>"

section \<open>Gateway calls\<close>

text \<open>
  The calls a handler issues to the gateway, with their arguments. A handler that awaits
  a call is modelled in phases: the synchronous part up to the call, which gives the
  state at that moment and the calls issued, and the part that runs when the call has
  settled, which takes the outcome of the call.
\<close>

datatype request =
    GetWordDetails jsstring SupportedLanguage SupportedLanguage
  | GenerateWordImage jsstring "jsstring option"
  | ChatAboutWord "(Role \<times> jsstring) list" jsstring jsstring SupportedLanguage SupportedLanguage
  | GenerateStoryFromWords "jsstring list" SupportedLanguage

text \<open>
  \<open>getWordDetails\<close>: the service call throws, or its response has a text or none; the
  text is parsed into a definition. \<open>response\<close> is the outcome of the service call with
  the text already parsed.
\<close>

definition getWordDetails :: "error + WordDefinition option \<Rightarrow> error + WordDefinition" where
  "getWordDetails response =
     (case response of
        Inl e \<Rightarrow> Inl e
      | Inr None \<Rightarrow> Inl (Error ''Failed to generate definition.'')
      | Inr (Some d) \<Rightarrow> Inr d)"

text \<open>
  \<open>generateWordImage\<close>: \<open>response\<close> is the outcome of the image service call, an error
  thrown or the image bytes of the first generated image, when present. Every failure is
  caught and gives the empty string.
\<close>

definition generateWordImage :: "error + jsstring option \<Rightarrow> jsstring" where
  "generateWordImage response =
     (case response of
        Inl e \<Rightarrow> []
      | Inr None \<Rightarrow> []
      | Inr (Some base64ImageBytes) \<Rightarrow>
          if base64ImageBytes = [] then []
          else str ''data:image/jpeg;base64,'' @ base64ImageBytes)"

text \<open>
  \<open>chatAboutWord\<close> returns the text of the response, which may be absent, and throws
  what the service call throws.
\<close>

definition chatAboutWord :: "error + jsstring option \<Rightarrow> error + jsstring option" where
  "chatAboutWord response = response"

section \<open>Search: \<open>handleSearch\<close>\<close>

text \<open>
  The block of setter calls under the comment \<open>Reset all states\<close>, with the
  \<open>setView\<close> before it.
\<close>

definition handleSearch_reset :: "app_state \<Rightarrow> app_state" where
  "handleSearch_reset s =
     s\<lparr>view := Search, loadingWord := True, loadingImage := True, wordData := None,
       gallery := [], activeImageIndex := 0, additionalMeanings := None,
       imageFeedbacks := Map.empty, chatMessages := [], isChatOpen := False\<rparr>"

text \<open>
  The synchronous part of the handler: nothing happens for a blank query; otherwise the
  state is reset and then the two calls are issued. The result is the state at the moment
  the calls are issued, and the calls.
\<close>

definition handleSearch_start :: "app_state \<Rightarrow> (app_state \<times> request list) option" where
  "handleSearch_start s =
     (if trim (query s) = [] then None
      else
        let s1 = handleSearch_reset s
        in Some (s1, [GetWordDetails (query s) (targetLanguage s) (nativeLanguage s),
                      GenerateWordImage (query s) None]))"

text \<open>
  The handler awaits the definition first. When it arrives it is stored and the handler
  goes on to await the image (\<open>True\<close>); when the call throws, control passes to the
  \<open>catch\<close> and \<open>finally\<close> blocks and the handler ends (\<open>False\<close>).
\<close>

definition handleSearch_details :: "error + WordDefinition \<Rightarrow> app_state \<Rightarrow> app_state \<times> bool" where
  "handleSearch_details details s =
     (case details of
        Inr d \<Rightarrow> (s\<lparr>wordData := Some d, loadingWord := False\<rparr>, True)
      | Inl e \<Rightarrow> (s\<lparr>loadingWord := False, loadingImage := False\<rparr>, False))"

text \<open>
  The part after \<open>await imagePromise\<close>, with the \<open>finally\<close> block.
\<close>

definition handleSearch_image :: "jsstring \<Rightarrow> app_state \<Rightarrow> app_state" where
  "handleSearch_image img s =
     (let s' = (if img \<noteq> [] then s\<lparr>gallery := [img]\<rparr> else s)
      in s'\<lparr>loadingWord := False, loadingImage := False\<rparr>)"

text \<open>
  A whole run of the handler with no other handler in between: the final state and the
  calls issued during the run.
\<close>

definition handleSearch :: "error + WordDefinition \<Rightarrow> jsstring \<Rightarrow> app_state \<Rightarrow> app_state \<times> request list" where
  "handleSearch details img s =
     (case handleSearch_start s of
        None \<Rightarrow> (s, [])
      | Some (s1, reqs) \<Rightarrow>
          (case handleSearch_details details s1 of
             (s2, False) \<Rightarrow> (s2, reqs)
           | (s2, True) \<Rightarrow> (handleSearch_image img s2, reqs)))"

section \<open>Variations: \<open>handleGenerateNewImage\<close>\<close>

definition handleGenerateNewImage_start :: "app_state \<Rightarrow> (app_state \<times> request list) option" where
  "handleGenerateNewImage_start s =
     (case wordData s of
        None \<Rightarrow> None
      | Some wd \<Rightarrow>
          let context = (if length (gallery s) = 1 then str ''Abstract and colorful interpretation''
                         else str ''Real world scenario usage'')
          in Some (s\<lparr>loadingNewImage := True\<rparr>, [GenerateWordImage (word wd) (Some context)]))"

text \<open>
  The part after the image call has settled: both updaters run on the state of that
  moment, the gallery gets the image at its end and the index is increased by one.
\<close>

definition handleGenerateNewImage_settle :: "jsstring \<Rightarrow> app_state \<Rightarrow> app_state" where
  "handleGenerateNewImage_settle newImg s =
     (let s' = (if newImg \<noteq> []
                then s\<lparr>gallery := gallery s @ [newImg], activeImageIndex := activeImageIndex s + 1\<rparr>
                else s)
      in s'\<lparr>loadingNewImage := False\<rparr>)"

definition handleGenerateNewImage :: "jsstring \<Rightarrow> app_state \<Rightarrow> app_state" where
  "handleGenerateNewImage newImg s =
     (case handleGenerateNewImage_start s of
        None \<Rightarrow> s
      | Some (s1, reqs) \<Rightarrow> handleGenerateNewImage_settle newImg s1)"

text \<open>
  A click on a thumbnail of the gallery.
\<close>

definition selectThumbnail :: "nat \<Rightarrow> app_state \<Rightarrow> app_state" where
  "selectThumbnail idx s = s\<lparr>activeImageIndex := idx\<rparr>"

section \<open>Chat: \<open>handleChatSubmit\<close>\<close>

definition fallback_answer :: jsstring where
  "fallback_answer = str ''I couldn't answer that at the moment.''"

text \<open>
  The synchronous part, at clock value \<open>now\<close>: the message of the user is put at the end
  of the transcript and the call is issued with the transcript as it was before.
\<close>

definition handleChatSubmit_start :: "nat \<Rightarrow> app_state \<Rightarrow> (app_state \<times> request list) option" where
  "handleChatSubmit_start now s =
     (if trim (chatInput s) = [] then None
      else case wordData s of
        None \<Rightarrow> None
      | Some wd \<Rightarrow>
          let userMsg = \<lparr>msg_id = digits now, role = User, msg_text = chatInput s\<rparr>;
              history = map (\<lambda>m. (role m, msg_text m)) (chatMessages s)
          in Some (s\<lparr>chatMessages := chatMessages s @ [userMsg], chatInput := [],
                     isChatSending := True\<rparr>,
                   [ChatAboutWord history (chatInput s) (word wd) (targetLanguage s) (nativeLanguage s)]))"

text \<open>
  The part after the call has settled, at clock value \<open>now\<close>: an answer is put at the end
  of the transcript, the fixed text standing in for an absent or empty one; when the
  call throws, the \<open>catch\<close> block logs the error and the transcript stays as it is.
\<close>

definition handleChatSubmit_settle :: "nat \<Rightarrow> error + jsstring option \<Rightarrow> app_state \<Rightarrow> app_state" where
  "handleChatSubmit_settle now result s =
     (let s' =
        (case result of
           Inl e \<Rightarrow> s
         | Inr responseText \<Rightarrow>
             let botMsg = \<lparr>msg_id = digits (now + 1), role = Model,
                           msg_text = (case responseText of
                                         None \<Rightarrow> fallback_answer
                                       | Some t \<Rightarrow> if t = [] then fallback_answer else t)\<rparr>
             in s\<lparr>chatMessages := chatMessages s @ [botMsg]\<rparr>)
      in s'\<lparr>isChatSending := False\<rparr>)"

definition handleChatSubmit :: "nat \<Rightarrow> nat \<Rightarrow> error + jsstring option \<Rightarrow> app_state \<Rightarrow> app_state" where
  "handleChatSubmit now later response s =
     (case handleChatSubmit_start now s of
        None \<Rightarrow> s
      | Some (s1, reqs) \<Rightarrow> handleChatSubmit_settle later (chatAboutWord response) s1)"

section \<open>Practice story: \<open>generateStoryFromWords\<close> and \<open>handleGenerateStory\<close>\<close>

text \<open>
  \<open>Array.from(new Set(savedItems.map(i => i.word)))\<close>: a set keeps its elements in the
  order of their first insertion.
\<close>

definition uniqueWords :: "SavedItem list \<Rightarrow> jsstring list" where
  "uniqueWords items =
     fold (\<lambda>w seen. if w \<in> set seen then seen else seen @ [w]) (map item_word items) []"

text \<open>
  \<open>subset.join(', ')\<close>.
\<close>

fun join :: "jsstring \<Rightarrow> jsstring list \<Rightarrow> jsstring" where
  "join sep [] = []"
| "join sep [w] = w"
| "join sep (w # ws) = w @ sep @ join sep ws"

text \<open>
  The first statement of \<open>generateStoryFromWords\<close>. \<open>words.sort(...)\<close> sorts the array
  of the caller in place and returns that array; its comparison function ignores its
  arguments and answers by \<open>Math.random\<close>, so the order it leaves is not determined by
  the words. \<open>sort_random\<close> stands for what this call of \<open>sort\<close> does to the array;
  \<open>slice(0, 8)\<close> then copies the first eight elements. The result is the subset and
  the array of the caller as the call leaves it.
\<close>

definition select_subset :: "(jsstring list \<Rightarrow> jsstring list) \<Rightarrow> jsstring list \<Rightarrow> jsstring list \<times> jsstring list" where
  "select_subset sort_random words =
     (if length words > 8
      then let sorted = sort_random words in (take 8 sorted, sorted)
      else (words, words))"

text \<open>
  The prompt, the \<open>contents\<close> of the request: the text of the template literal before
  and behind \<open>${subset.join(', ')}\<close>, line by line.
\<close>

definition prompt_head :: jsstring where
  "prompt_head =
     [0x0A] @ str ''    Create a creative, coherent, and short story (approx 150 words) that includes the following words exactly: ''"

definition prompt_tail :: jsstring where
  "prompt_tail =
     str ''.'' @ [0x0A]
     @ str ''    '' @ [0x0A]
     @ str ''    IMPORTANT FORMATTING INSTRUCTION:'' @ [0x0A]
     @ str ''    Whenever one of the requested words (or a grammatical variation of it) appears in the story, wrap it in double curly braces. '' @ [0x0A]
     @ str ''    Example: '' @ [0x22] @ str ''The {{cat}} sat on the {{mat}}.'' @ [0x22] @ [0x0A]
     @ str ''    '' @ [0x0A]
     @ str ''    The story should be written in the words' original language (usually English), but make it simple enough for learners.'' @ [0x0A]
     @ str ''    '' @ [0x0A]
     @ str ''    Return JSON with:'' @ [0x0A]
     @ str ''    1. 'title': A creative title for the story.'' @ [0x0A]
     @ str ''    2. 'content': The story text with the {{word}} formatting.'' @ [0x0A]
     @ str ''    3. 'wordsUsed': The list of words from the input that were successfully included.'' @ [0x0A]
     @ str ''  ''"

definition story_prompt :: "jsstring list \<Rightarrow> jsstring" where
  "story_prompt ws = prompt_head @ join (str '', '') ws @ prompt_tail"

text \<open>
  \<open>generateStoryFromWords\<close>: the subset chosen, the prompt of the request issued, the
  array of the caller after the call, and the result, where \<open>response\<close> is the outcome of
  the service call with the text already parsed.
\<close>

record story_call =
  words_sent :: "jsstring list"
  prompt :: jsstring
  words_after :: "jsstring list"
  outcome :: "error + StoryQuiz"

text \<open>
  Reading the words back from a prompt: the text between the fixed text before and the
  fixed text behind the words, cut at every comma followed by a space, from left to
  right. \<open>contains_sep\<close> says that a word holds a comma followed by a space itself.
\<close>

fun contains_sep :: "jsstring \<Rightarrow> bool" where
  "contains_sep (c # d # r) = ((c = 0x2C \<and> d = 0x20) \<or> contains_sep (d # r))"
| "contains_sep r = False"

fun split_comma :: "jsstring \<Rightarrow> jsstring \<Rightarrow> jsstring list" where
  "split_comma acc [] = [acc]"
| "split_comma acc (c # cs) =
     (if c = 0x2C \<and> take 1 cs = [0x20] then acc # split_comma [] (drop 1 cs)
      else split_comma (acc @ [c]) cs)"

definition embedded_words :: "jsstring \<Rightarrow> jsstring list" where
  "embedded_words p =
     split_comma [] (take (length p - length prompt_head - length prompt_tail)
                          (drop (length prompt_head) p))"

definition generateStoryFromWords ::
    "(jsstring list \<Rightarrow> jsstring list) \<Rightarrow> error + StoryQuiz option \<Rightarrow> jsstring list \<Rightarrow> story_call" where
  "generateStoryFromWords sort_random response words =
     (let (chosen, arr) = select_subset sort_random words
      in \<lparr>words_sent = chosen, prompt = story_prompt chosen, words_after = arr,
          outcome = (case response of
                       Inl e \<Rightarrow> Inl e
                     | Inr None \<Rightarrow> Inl (Error ''Failed to generate story'')
                     | Inr (Some quiz) \<Rightarrow> Inr quiz)\<rparr>)"

text \<open>
  \<open>handleGenerateStory\<close>: nothing happens on an empty collection; otherwise the story
  shown is cleared, the distinct words are passed to \<open>generateStoryFromWords\<close> and its
  result, when there is one, is stored. The second component is the call made.
\<close>

definition handleGenerateStory ::
    "(jsstring list \<Rightarrow> jsstring list) \<Rightarrow> error + StoryQuiz option \<Rightarrow> app_state \<Rightarrow> app_state \<times> story_call option" where
  "handleGenerateStory sort_random response s =
     (if savedItems s = [] then (s, None)
      else
        let s1 = s\<lparr>loadingStory := True, storyQuiz := None\<rparr>;
            call = generateStoryFromWords sort_random response (uniqueWords (savedItems s));
            s2 = (case outcome call of Inr quiz \<Rightarrow> s1\<lparr>storyQuiz := Some quiz\<rparr> | Inl e \<Rightarrow> s1)
        in (s2\<lparr>loadingStory := False\<rparr>, Some call))"

section \<open>Story rendering: \<open>renderStoryContent\<close>\<close>

text \<open>
  The regular expression \<open>\{\{.*?\}\}\<close> tried at the start of a string. After the two
  opening braces the lazy \<open>.*?\<close> takes one code unit at a time, never a line terminator,
  and stops as soon as two closing braces follow. \<open>lazy_dot\<close> gives the number of code
  units \<open>.*?\<close> takes, \<open>match_marker\<close> the length of the whole match.
\<close>

fun lazy_dot :: "jsstring \<Rightarrow> nat option" where
  "lazy_dot [] = None"
| "lazy_dot (c # cs) =
     (if take 2 (c # cs) = str ''}}'' then Some 0
      else if is_line_terminator c then None
      else map_option Suc (lazy_dot cs))"

definition match_marker :: "jsstring \<Rightarrow> nat option" where
  "match_marker s =
     (if take 2 s = str ''{{'' then map_option (\<lambda>k. k + 4) (lazy_dot (drop 2 s)) else None)"

text \<open>
  \<open>content.split(/(\{\{.*?\}\})/g)\<close>: the expression is tried at every position from
  left to right; where it matches, the text since the last match and the match itself
  (the capture group) are put out and the search goes on behind the match; the text
  behind the last match is put out at the end. \<open>lit\<close> is the text since the last match.
  A match has at least four code units, so the text behind a match of \<open>n\<close> code units
  at \<open>c # cs\<close> is \<open>drop (n - 1) cs\<close>.
\<close>

fun split_from :: "jsstring \<Rightarrow> jsstring \<Rightarrow> jsstring list" where
  "split_from lit [] = [lit]"
| "split_from lit (c # cs) =
     (case match_marker (c # cs) of
        Some n \<Rightarrow> lit # take n (c # cs) # split_from [] (drop (n - 1) cs)
      | None \<Rightarrow> split_from (lit @ [c]) cs)"

definition split_markers :: "jsstring \<Rightarrow> jsstring list" where
  "split_markers body = split_from [] body"

text \<open>
  \<open>startsWith\<close>, \<open>endsWith\<close> and \<open>slice(2, -2)\<close>.
\<close>

definition startsWith :: "jsstring \<Rightarrow> jsstring \<Rightarrow> bool" where
  "startsWith part p = (take (length p) part = p)"

definition endsWith :: "jsstring \<Rightarrow> jsstring \<Rightarrow> bool" where
  "endsWith part p = (length p \<le> length part \<and> drop (length part - length p) part = p)"

definition slice_2_2 :: "jsstring \<Rightarrow> jsstring" where
  "slice_2_2 part = drop 2 (take (length part - 2) part)"

text \<open>
  The elements the renderer puts into the paragraph: a blank that shows its word when
  clicked, or a span of text.
\<close>

datatype element = QuizBlank jsstring | Span jsstring

definition render_part :: "jsstring \<Rightarrow> element" where
  "render_part part =
     (if startsWith part (str ''{{'') \<and> endsWith part (str ''}}'') then QuizBlank (slice_2_2 part)
      else Span part)"

definition renderStoryContent :: "jsstring \<Rightarrow> element list" where
  "renderStoryContent body = map render_part (split_markers body)"

text \<open>
  The text an element stands for in the body: a blank stands for its word between the
  braces.
\<close>

fun source_text :: "element \<Rightarrow> jsstring" where
  "source_text (QuizBlank w) = str ''{{'' @ w @ str ''}}''"
| "source_text (Span t) = t"

text \<open>
  What the renderer is to find, said without the regular expression. A marker is two
  opening braces, a token, and two closing braces, where the token holds no line
  terminator and the closing braces are the first two closing braces in a row behind
  the opening ones: none begin inside the token. \<open>closing_in\<close> says that two closing
  braces in a row occur in a text.
\<close>

fun closing_in :: "jsstring \<Rightarrow> bool" where
  "closing_in (c # d # r) = ((c = 0x7D \<and> d = 0x7D) \<or> closing_in (d # r))"
| "closing_in r = False"

definition is_marker :: "jsstring \<Rightarrow> bool" where
  "is_marker m =
     (startsWith m (str ''{{'') \<and> endsWith m (str ''}}'') \<and> 4 \<le> length m
      \<and> \<not> list_ex is_line_terminator (slice_2_2 m)
      \<and> \<not> closing_in (slice_2_2 m @ [0x7D]))"

definition starts_marker :: "jsstring \<Rightarrow> bool" where
  "starts_marker s = (\<exists>m r. s = m @ r \<and> is_marker m)"

text \<open>
  A scan of a body from left to right: a list of segments and markers in turn, a
  segment first and last, where each marker is the first one that starts behind the
  marker before it. So no marker starts at a position inside a segment, read with the
  text that follows the segment, and none starts in the last segment.
\<close>

fun found_by_scan :: "jsstring list \<Rightarrow> bool" where
  "found_by_scan [] = False"
| "found_by_scan [l] = (\<forall>j<length l. \<not> starts_marker (drop j l))"
| "found_by_scan (l # m # ps) =
     ((\<forall>j<length l. \<not> starts_marker (drop j (l @ m @ concat ps)))
      \<and> is_marker m \<and> found_by_scan ps)"

section \<open>Audio: \<open>decodeAudio\<close> and \<open>decodeAudioData\<close>\<close>

text \<open>
  \<open>decodeAudio\<close>: \<open>binaryString\<close> is what \<open>atob\<close> gives; every code unit is stored into
  a byte array, which keeps its low eight bits.
\<close>

definition decodeAudio :: "jsstring \<Rightarrow> 8 word list" where
  "decodeAudio binaryString = map ucast binaryString"

text \<open>
  \<open>new Int16Array(bytes.buffer)\<close>: a view of the bytes as 16-bit signed integers, two
  bytes each. A typed array has the byte order of the platform; the low byte comes first
  on the platforms browsers run on.
\<close>

fun int16_view :: "8 word list \<Rightarrow> 16 word list" where
  "int16_view (lo # hi # rest) = (ucast lo + push_bit 8 (ucast hi)) # int16_view rest"
| "int16_view _ = []"

text \<open>
  \<open>decodeAudioData\<close>: the constructor of the view throws a \<open>RangeError\<close> when the number
  of bytes is odd, and \<open>ctx.createBuffer\<close> throws a \<open>NotSupportedError\<close> when asked for
  a buffer of no frames. Every sample is divided by 32768. A 16-bit integer divided by a
  power of two is a binary floating-point number, so the quotient is exact and the
  samples are modelled as real numbers.
\<close>

definition decodeAudioData :: "8 word list \<Rightarrow> error + real list" where
  "decodeAudioData bytes =
     (if odd (length bytes) then Inl (Error ''RangeError'')
      else
        let dataInt16 = int16_view bytes;
            frameCount = length dataInt16
        in if frameCount = 0 then Inl (Error ''NotSupportedError'')
           else Inr (map (\<lambda>i. real_of_int (sint (dataInt16 ! i)) / 32768) [0..<frameCount]))"

section \<open>Sample values\<close>

text \<open>
  A definition and two images, and the states reached from the initial state by a
  search for \<open>gato\<close>: one where definition and image arrive, one where the image fails.
\<close>

definition gato :: WordDefinition where
  "gato = \<lparr>word = str ''gato'', phonetic = str ''gato'', partOfSpeech = str ''noun'',
            wd_definition = str ''cat'', originalDefinition = str ''felino'', examples = [],
            synonyms = [], etymology = str ''cattus'', vibes = []\<rparr>"

definition img_a :: jsstring where
  "img_a = generateWordImage (Inr (Some (str ''AAAA'')))"

definition img_b :: jsstring where
  "img_b = generateWordImage (Inr (Some (str ''BBBB'')))"

definition img_c :: jsstring where
  "img_c = generateWordImage (Inr (Some (str ''CCCC'')))"

definition typed_gato :: app_state where
  "typed_gato = (initial_state [])\<lparr>query := str ''gato''\<rparr>"

definition gato_loaded :: app_state where
  "gato_loaded = fst (handleSearch (Inr gato) img_a typed_gato)"

definition gato_no_image :: app_state where
  "gato_no_image = fst (handleSearch (Inr gato) (generateWordImage (Inl (Error ''quota''))) typed_gato)"


text \<open>
  Ten distinct words, saved with one image each, and a call of \<open>sort\<close> that leaves the
  array in reverse order.
\<close>

definition ten_words :: "jsstring list" where
  "ten_words = map str [''uno'', ''dos'', ''tres'', ''cuatro'', ''cinco'', ''seis'', ''siete'',
                        ''ocho'', ''nueve'', ''diez'']"

definition saved_word :: "jsstring \<Rightarrow> SavedItem" where
  "saved_word w = \<lparr>item_id = digits 1000, item_word = w, imageUrl = img_a,
                   item_definition = str ''number'', timestamp = 1000\<rparr>"

definition ten_saved :: app_state where
  "ten_saved = (initial_state (map saved_word ten_words))\<lparr>view := Wordbook\<rparr>"

section \<open>Evaluation of the sample values\<close>

lemmas string_defs = str_def trim_def is_white_space_def is_line_terminator_def

lemmas search_defs = handleSearch_def handleSearch_start_def handleSearch_reset_def
  handleSearch_details_def handleSearch_image_def generateWordImage_def getWordDetails_def

lemmas sample_defs = gato_def img_a_def img_b_def img_c_def typed_gato_def gato_loaded_def
  gato_no_image_def initial_state_def

lemmas variation_defs = handleGenerateNewImage_def handleGenerateNewImage_start_def
  handleGenerateNewImage_settle_def selectThumbnail_def

lemma gato_loaded_fields:
  "wordData gato_loaded = Some gato" "gallery gato_loaded = [img_a]"
  "activeImageIndex gato_loaded = 0" "savedItems gato_loaded = []"
  "imageFeedbacks gato_loaded = Map.empty" "chatMessages gato_loaded = []"
  "currentImage gato_loaded = Some img_a"
  by (simp_all add: sample_defs search_defs string_defs currentImage_def)

lemma gato_no_image_fields:
  "wordData gato_no_image = Some gato" "gallery gato_no_image = []"
  "activeImageIndex gato_no_image = 0" "chatMessages gato_no_image = []"
  by (simp_all add: sample_defs search_defs string_defs)

lemma img_nonempty:
  "img_a \<noteq> []" "img_b \<noteq> []" "img_c \<noteq> []" "img_a \<noteq> img_b" "img_b \<noteq> img_a"
  by (simp_all add: sample_defs search_defs string_defs)

section \<open>The search handler resets the session\<close>

text \<open>
  C1. For every search submitted with a non-blank query, whatever the state held
  before, the synchronous part of \<open>handleSearch\<close> issues the definition call and the
  image call in a state where the definition is absent, the gallery is empty, the active
  image index is 0, the additional meanings are absent, the feedback map is empty and
  the chat transcript is empty.
\<close>

theorem handleSearch_clears_session:
  assumes "trim (query s) \<noteq> []"
  shows "\<exists>s1. handleSearch_start s =
            Some (s1, [GetWordDetails (query s) (targetLanguage s) (nativeLanguage s),
                       GenerateWordImage (query s) None])
          \<and> wordData s1 = None \<and> gallery s1 = [] \<and> activeImageIndex s1 = 0
          \<and> additionalMeanings s1 = None \<and> imageFeedbacks s1 = Map.empty
          \<and> chatMessages s1 = []"
  using assms by (simp add: handleSearch_start_def handleSearch_reset_def)

text \<open>
  A search for \<open>perro\<close> from the state that shows \<open>gato\<close> with its image and a chat
  message.
\<close>

theorem handleSearch_clears_session_witness:
  "trim (query (gato_loaded\<lparr>query := str ''perro'',
        chatMessages := [\<lparr>msg_id = digits 7, role = User, msg_text = str ''hola''\<rparr>]\<rparr>)) \<noteq> []
   \<and> wordData gato_loaded = Some gato \<and> gallery gato_loaded = [img_a]
   \<and> (\<exists>s1. handleSearch_start (gato_loaded\<lparr>query := str ''perro'',
              chatMessages := [\<lparr>msg_id = digits 7, role = User, msg_text = str ''hola''\<rparr>]\<rparr>) =
            Some (s1, [GetWordDetails (str ''perro'') SPANISH ENGLISH,
                       GenerateWordImage (str ''perro'') None])
          \<and> wordData s1 = None \<and> gallery s1 = [] \<and> activeImageIndex s1 = 0
          \<and> additionalMeanings s1 = None \<and> imageFeedbacks s1 = Map.empty
          \<and> chatMessages s1 = [])"
proof -
  let ?s = "gato_loaded\<lparr>query := str ''perro'',
        chatMessages := [\<lparr>msg_id = digits 7, role = User, msg_text = str ''hola''\<rparr>]\<rparr>"
  have q: "trim (query ?s) \<noteq> []" by (simp add: string_defs)
  have l: "targetLanguage ?s = SPANISH" "nativeLanguage ?s = ENGLISH" "query ?s = str ''perro''"
    by (simp_all add: sample_defs search_defs string_defs)
  from handleSearch_clears_session [OF q] q show ?thesis
    unfolding l by (simp add: gato_loaded_fields)
qed

section \<open>Saving to the collection\<close>

text \<open>
  C2. When a definition is loaded and an image is displayed, \<open>handleSaveItem\<close> leaves
  the collection as it is if it holds an item with the word and the image being saved,
  and otherwise puts exactly one new item in front of the items saved before; saving a
  second time changes nothing; a collection with no two items of the same word and
  image stays so; and a collection ordered from the latest to the earliest time of
  saving stays so when the clock has not gone back.
\<close>

theorem handleSaveItem_save:
  assumes "wordData s = Some wd" and "currentImage s = Some img" and "img \<noteq> []"
  shows "((\<exists>item. item \<in> set (savedItems s) \<and> item_word item = word wd \<and> imageUrl item = img)
            \<longrightarrow> savedItems (handleSaveItem now_id now s) = savedItems s)
         \<and> (\<not> (\<exists>item. item \<in> set (savedItems s) \<and> item_word item = word wd \<and> imageUrl item = img)
            \<longrightarrow> savedItems (handleSaveItem now_id now s) =
                 \<lparr>item_id = digits now_id, item_word = word wd, imageUrl = img,
                  item_definition = wd_definition wd, timestamp = now\<rparr> # savedItems s)
         \<and> savedItems (handleSaveItem later_id later (handleSaveItem now_id now s)) = savedItems (handleSaveItem now_id now s)
         \<and> (distinct (map item_key (savedItems s))
            \<longrightarrow> distinct (map item_key (savedItems (handleSaveItem now_id now s))))
         \<and> (sorted_wrt (\<lambda>a b. timestamp b \<le> timestamp a) (savedItems s)
              \<and> (\<forall>item. item \<in> set (savedItems s) \<longrightarrow> timestamp item \<le> now)
            \<longrightarrow> sorted_wrt (\<lambda>a b. timestamp b \<le> timestamp a) (savedItems (handleSaveItem now_id now s)))"
  using assms
  by (auto simp: handleSaveItem_def save_updater_def currentImage_def list_ex_iff item_key_def
      Let_def image_iff)

lemma handleSaveItem_frame:
  "wordData (handleSaveItem now_id now s) = wordData s"
  "currentImage (handleSaveItem now_id now s) = currentImage s"
  by (simp_all add: handleSaveItem_def currentImage_def Let_def split: option.splits)

text \<open>
  The first save into the empty collection puts the item in, the second save finds it.
\<close>

theorem handleSaveItem_save_witness:
  "wordData gato_loaded = Some gato \<and> currentImage gato_loaded = Some img_a \<and> img_a \<noteq> []
   \<and> savedItems gato_loaded = []
   \<and> savedItems (handleSaveItem 1000 1001 gato_loaded) =
        [\<lparr>item_id = digits 1000, item_word = str ''gato'', imageUrl = img_a,
          item_definition = str ''cat'', timestamp = 1001\<rparr>]
   \<and> (\<exists>item. item \<in> set (savedItems (handleSaveItem 1000 1001 gato_loaded))
         \<and> item_word item = word gato \<and> imageUrl item = img_a)
   \<and> savedItems (handleSaveItem 2000 2001 (handleSaveItem 1000 1001 gato_loaded)) =
        savedItems (handleSaveItem 1000 1001 gato_loaded)
   \<and> distinct (map item_key (savedItems (handleSaveItem 1000 1001 gato_loaded)))
   \<and> distinct (map item_key (savedItems (handleSaveItem 2000 2001 (handleSaveItem 1000 1001 gato_loaded))))
   \<and> sorted_wrt (\<lambda>a b. timestamp b \<le> timestamp a)
        (savedItems (handleSaveItem 2000 2001 (handleSaveItem 1000 1001 gato_loaded)))"
proof -
  let ?s1 = "handleSaveItem 1000 1001 gato_loaded"
  have first: "savedItems ?s1 =
        [\<lparr>item_id = digits 1000, item_word = str ''gato'', imageUrl = img_a,
          item_definition = str ''cat'', timestamp = 1001\<rparr>]"
    and d1: "distinct (map item_key (savedItems ?s1))"
    using handleSaveItem_save [of gato_loaded gato img_a 1000 1001 2000 2001]
    by (simp_all add: gato_loaded_fields img_nonempty) (simp add: gato_def)
  have found: "\<exists>item. item \<in> set (savedItems ?s1) \<and> item_word item = word gato \<and> imageUrl item = img_a"
    unfolding first by (simp add: gato_def)
  have o1: "sorted_wrt (\<lambda>a b. timestamp b \<le> timestamp a) (savedItems ?s1)"
    and t1: "\<forall>item. item \<in> set (savedItems ?s1) \<longrightarrow> timestamp item \<le> 2001"
    unfolding first by simp_all
  have second: "savedItems (handleSaveItem 2000 2001 ?s1) = savedItems ?s1"
    and d2: "distinct (map item_key (savedItems (handleSaveItem 2000 2001 ?s1)))"
    and o2: "sorted_wrt (\<lambda>a b. timestamp b \<le> timestamp a) (savedItems (handleSaveItem 2000 2001 ?s1))"
    using handleSaveItem_save [of ?s1 gato img_a 2000 2001 3000 3001] found d1 o1 t1
    by (simp_all add: handleSaveItem_frame gato_loaded_fields img_nonempty)
  from first found second d1 d2 o2 show ?thesis
    by (simp add: gato_loaded_fields img_nonempty)
qed

section \<open>Feedback on the displayed image\<close>

lemma toggleFeedback_currentImage: "currentImage (toggleFeedback type s) = currentImage s"
  by (simp add: toggleFeedback_def currentImage_def split: option.splits)

text \<open>
  C7. With an image displayed, \<open>toggleFeedback\<close> acts on the entry of that image
  reference: the value already recorded removes the entry, any other value (or any
  value when none is recorded) becomes the recorded value; the entries of all other
  image references stay as they are.
\<close>

theorem toggleFeedback_toggle:
  assumes "currentImage s = Some url" and "url \<noteq> []"
  shows "imageFeedbacks (toggleFeedback type s) url =
           (if imageFeedbacks s url = Some type then None else Some type)
         \<and> (\<forall>other. other \<noteq> url \<longrightarrow>
               imageFeedbacks (toggleFeedback type s) other = imageFeedbacks s other)"
  using assms by (simp add: toggleFeedback_def feedback_updater_def)

theorem toggleFeedback_toggle_witness:
  "currentImage gato_loaded = Some img_a \<and> img_a \<noteq> []
   \<and> imageFeedbacks (toggleFeedback Like gato_loaded) img_a = Some Like
   \<and> imageFeedbacks (toggleFeedback Like (toggleFeedback Like gato_loaded)) img_a = None
   \<and> imageFeedbacks (toggleFeedback Dislike (toggleFeedback Like gato_loaded)) img_a = Some Dislike
   \<and> imageFeedbacks (toggleFeedback Like gato_loaded) img_b = None"
  using toggleFeedback_toggle [of gato_loaded img_a Like]
    toggleFeedback_toggle [of "toggleFeedback Like gato_loaded" img_a Like]
    toggleFeedback_toggle [of "toggleFeedback Like gato_loaded" img_a Dislike]
  by (simp add: gato_loaded_fields img_nonempty toggleFeedback_currentImage)

section \<open>Generating a variation\<close>

lemma handleGenerateNewImage_success:
  assumes "wordData s = Some wd" and "newImg \<noteq> []"
  shows "gallery (handleGenerateNewImage newImg s) = gallery s @ [newImg]"
    and "activeImageIndex (handleGenerateNewImage newImg s) = activeImageIndex s + 1"
    and "wordData (handleGenerateNewImage newImg s) = Some wd"
  using assms by (simp_all add: variation_defs)

lemma handleGenerateNewImage_failure:
  "gallery (handleGenerateNewImage [] s) = gallery s"
  "activeImageIndex (handleGenerateNewImage [] s) = activeImageIndex s"
  by (simp_all add: variation_defs split: option.splits)

lemma two_variations:
  "gallery (handleGenerateNewImage img_c (handleGenerateNewImage img_b gato_loaded))
     = [img_a, img_b, img_c]"
  "activeImageIndex (handleGenerateNewImage img_c (handleGenerateNewImage img_b gato_loaded)) = 2"
  by (simp_all add: handleGenerateNewImage_success [where wd = gato] gato_loaded_fields
      img_nonempty)

text \<open>
  C3. A successful variation puts one image at the end of the gallery and adds one to
  the active index, and a failed one changes neither; so the index is the last one
  afterwards only if it was the last one before. After a search whose image failed,
  the gallery is empty and the index is 0: a successful variation leaves a gallery of one
  image and the index 1, where no image is displayed. And with the first of two images
  selected, a successful variation leaves three images and the index 1.
\<close>

theorem handleGenerateNewImage_index_not_last:
  "gallery gato_no_image = [] \<and> activeImageIndex gato_no_image = 0
   \<and> gallery (handleGenerateNewImage img_b gato_no_image) = [img_b]
   \<and> activeImageIndex (handleGenerateNewImage img_b gato_no_image) = 1
   \<and> currentImage (handleGenerateNewImage img_b gato_no_image) = None
   \<and> gallery (handleGenerateNewImage img_c (selectThumbnail 0 (handleGenerateNewImage img_b gato_loaded)))
       = [img_a, img_b, img_c]
   \<and> activeImageIndex (handleGenerateNewImage img_c (selectThumbnail 0 (handleGenerateNewImage img_b gato_loaded)))
       = 1"
  by (simp add: variation_defs gato_loaded_fields gato_no_image_fields img_nonempty
      currentImage_def)

section \<open>Definition and image of one search\<close>

text \<open>
  C4, as the claim states it, fails: when the definition call fails, the handler ends in
  its \<open>catch\<close> block and an image that was generated is not stored. Here the service
  gives no definition text and the image arrives.
\<close>

theorem handleSearch_definition_failure_drops_image:
  "trim (query typed_gato) \<noteq> [] \<and> img_a \<noteq> []
   \<and> getWordDetails (Inr None) = Inl (Error ''Failed to generate definition.'')
   \<and> gallery (fst (handleSearch (getWordDetails (Inr None)) img_a typed_gato)) = []
   \<and> wordData (fst (handleSearch (getWordDetails (Inr None)) img_a typed_gato)) = None
   \<and> loadingImage (fst (handleSearch (getWordDetails (Inr None)) img_a typed_gato)) = False"
  by (simp add: search_defs sample_defs string_defs)

text \<open>
  C4, amended. In a search with a non-blank query, the definition that arrives is stored
  whether the image arrives or not, and then the image is stored exactly when it is not
  empty; when the definition call fails, neither a definition nor an image is stored.
  The handler issues one definition call and one image call, whatever their outcomes.
  Storing the definition leaves the gallery as it is and storing the image leaves the
  definition as it is, and both leave the active index, the additional meanings, the
  feedback map and the chat transcript as they are.
\<close>

theorem handleSearch_commits:
  assumes "trim (query s) \<noteq> []"
  shows "wordData (fst (handleSearch (Inr d) img s)) = Some d
         \<and> gallery (fst (handleSearch (Inr d) img s)) = (if img = [] then [] else [img])
         \<and> wordData (fst (handleSearch (Inl e) img s)) = None
         \<and> gallery (fst (handleSearch (Inl e) img s)) = []
         \<and> snd (handleSearch details img s) =
             [GetWordDetails (query s) (targetLanguage s) (nativeLanguage s),
              GenerateWordImage (query s) None]
         \<and> gallery (fst (handleSearch_details details s')) = gallery s'
         \<and> activeImageIndex (fst (handleSearch_details details s')) = activeImageIndex s'
         \<and> additionalMeanings (fst (handleSearch_details details s')) = additionalMeanings s'
         \<and> imageFeedbacks (fst (handleSearch_details details s')) = imageFeedbacks s'
         \<and> chatMessages (fst (handleSearch_details details s')) = chatMessages s'
         \<and> wordData (handleSearch_image img s') = wordData s'
         \<and> activeImageIndex (handleSearch_image img s') = activeImageIndex s'
         \<and> additionalMeanings (handleSearch_image img s') = additionalMeanings s'
         \<and> imageFeedbacks (handleSearch_image img s') = imageFeedbacks s'
         \<and> chatMessages (handleSearch_image img s') = chatMessages s'"
  using assms
  by (simp add: handleSearch_def handleSearch_start_def handleSearch_reset_def
      handleSearch_details_def handleSearch_image_def Let_def split: sum.splits)

theorem handleSearch_commits_witness:
  "trim (query typed_gato) \<noteq> []
   \<and> wordData (fst (handleSearch (Inr gato) [] typed_gato)) = Some gato
   \<and> gallery (fst (handleSearch (Inr gato) [] typed_gato)) = []
   \<and> gallery (fst (handleSearch (Inr gato) img_a typed_gato)) = [img_a]
   \<and> wordData (fst (handleSearch (Inl (Error ''offline'')) img_a typed_gato)) = None
   \<and> gallery (fst (handleSearch (Inl (Error ''offline'')) img_a typed_gato)) = []
   \<and> snd (handleSearch (Inr gato) img_a typed_gato) =
        [GetWordDetails (str ''gato'') SPANISH ENGLISH, GenerateWordImage (str ''gato'') None]"
proof -
  have q: "trim (query typed_gato) \<noteq> []" by (simp add: sample_defs string_defs)
  have l: "query typed_gato = str ''gato''" "targetLanguage typed_gato = SPANISH"
    "nativeLanguage typed_gato = ENGLISH" by (simp_all add: sample_defs)
  from handleSearch_commits [OF q, of gato "[]" "Error ''offline''" "Inr gato" typed_gato]
    handleSearch_commits [OF q, of gato img_a "Error ''offline''" "Inr gato" typed_gato]
    q show ?thesis by (simp add: l img_nonempty)
qed

section \<open>Chat turns\<close>

lemmas chat_defs = handleChatSubmit_def handleChatSubmit_start_def handleChatSubmit_settle_def
  chatAboutWord_def

lemma handleChatSubmit_answered:
  assumes "trim (chatInput s) \<noteq> []" and "wordData s = Some wd"
  shows "chatMessages (handleChatSubmit now later (Inr responseText) s) =
           chatMessages s @
           [\<lparr>msg_id = digits now, role = User, msg_text = chatInput s\<rparr>,
            \<lparr>msg_id = digits (later + 1), role = Model,
             msg_text = (case responseText of None \<Rightarrow> fallback_answer
                         | Some t \<Rightarrow> if t = [] then fallback_answer else t)\<rparr>]"
  using assms by (simp add: chat_defs Let_def)

lemma handleChatSubmit_thrown:
  assumes "trim (chatInput s) \<noteq> []" and "wordData s = Some wd"
  shows "chatMessages (handleChatSubmit now later (Inl e) s) =
           chatMessages s @ [\<lparr>msg_id = digits now, role = User, msg_text = chatInput s\<rparr>]"
  using assms by (simp add: chat_defs Let_def)

text \<open>
  C6. With a word loaded and a non-blank message, a response with a text, with an empty
  text or with none puts an answer behind the message of the user, the fixed text in the
  last two cases (\<open>handleChatSubmit_answered\<close>). When the call throws, only the message
  of the user is added (\<open>handleChatSubmit_thrown\<close>): here the transcript of a first
  turn ends with the message of the user and holds no answer.
\<close>

theorem handleChatSubmit_throw_no_answer:
  "trim (chatInput (gato_loaded\<lparr>chatInput := str ''plural?''\<rparr>)) \<noteq> []
   \<and> wordData (gato_loaded\<lparr>chatInput := str ''plural?''\<rparr>) = Some gato
   \<and> chatMessages (handleChatSubmit 1000 2000 (Inl (Error ''network''))
        (gato_loaded\<lparr>chatInput := str ''plural?''\<rparr>))
       = [\<lparr>msg_id = digits 1000, role = User, msg_text = str ''plural?''\<rparr>]
   \<and> isChatSending (handleChatSubmit 1000 2000 (Inl (Error ''network''))
        (gato_loaded\<lparr>chatInput := str ''plural?''\<rparr>)) = False"
  by (simp add: chat_defs Let_def gato_loaded_fields) (simp add: string_defs)

section \<open>Decoding audio\<close>

lemma length_int16_view: "length (int16_view bytes) = length bytes div 2"
  by (induction bytes rule: int16_view.induct) simp_all

lemma sint16_range: "- 32768 \<le> sint (w :: 16 word) \<and> sint w \<le> 32767"
  using sint_ge [of w] sint_lt [of w] by simp

lemma normalized_bound:
  "- 32768 \<le> (n :: int) \<Longrightarrow> n \<le> 32767 \<Longrightarrow> - 1 \<le> real_of_int n / 32768 \<and> real_of_int n / 32768 \<le> 1"
  by simp

lemma decodeAudioData_throws:
  "decodeAudioData [] = Inl (Error ''NotSupportedError'')"
  "odd (length bytes) \<Longrightarrow> decodeAudioData bytes = Inl (Error ''RangeError'')"
  by (simp_all add: decodeAudioData_def)

text \<open>
  C9. For a payload of 16-bit samples, that is, of an even number of bytes and not
  empty, \<open>decodeAudioData\<close> gives one sample for every 16-bit integer of the payload,
  half as many as there are bytes; the sample is the signed value of the integer, which
  lies between -32768 and 32767, divided by 32768, and lies between -1 and 1.
\<close>

theorem decodeAudioData_normalized:
  assumes "even (length bytes)" and "bytes \<noteq> []"
  shows "\<exists>samples. decodeAudioData bytes = Inr samples
           \<and> length samples = length (int16_view bytes)
           \<and> length samples = length bytes div 2
           \<and> (\<forall>i<length samples.
                 samples ! i = real_of_int (sint (int16_view bytes ! i)) / 32768
                 \<and> - 32768 \<le> sint (int16_view bytes ! i) \<and> sint (int16_view bytes ! i) \<le> 32767
                 \<and> - 1 \<le> samples ! i \<and> samples ! i \<le> 1)"
proof -
  define samples where
    "samples = map (\<lambda>i. real_of_int (sint (int16_view bytes ! i)) / 32768)
                 [0..<length (int16_view bytes)]"
  have "length bytes div 2 \<noteq> 0"
    using assms by (cases bytes; cases "tl bytes") auto
  then have "length (int16_view bytes) \<noteq> 0"
    unfolding length_int16_view .
  then have "int16_view bytes \<noteq> []"
    by simp
  then have d: "decodeAudioData bytes = Inr samples"
    using assms by (simp add: decodeAudioData_def Let_def samples_def)
  have n: "length samples = length (int16_view bytes)"
    by (simp add: samples_def)
  have h: "length samples = length bytes div 2"
    by (simp add: n length_int16_view)
  have "samples ! i = real_of_int (sint (int16_view bytes ! i)) / 32768
         \<and> - 32768 \<le> sint (int16_view bytes ! i) \<and> sint (int16_view bytes ! i) \<le> 32767
         \<and> - 1 \<le> samples ! i \<and> samples ! i \<le> 1" if i: "i < length samples" for i
  proof -
    have v: "samples ! i = real_of_int (sint (int16_view bytes ! i)) / 32768"
      using i n unfolding samples_def by (simp del: of_int_sint)
    show ?thesis
      unfolding v using sint16_range [of "int16_view bytes ! i"]
        normalized_bound [of "sint (int16_view bytes ! i)"] by blast
  qed
  with d n h show ?thesis by blast
qed

text \<open>
  A payload of three samples: the least one, the greatest one and 1.
\<close>

theorem decodeAudioData_normalized_witness:
  "decodeAudio [0, 128, 255, 127, 1, 0] = [0, 128, 255, 127, 1, 0]
   \<and> even (length (decodeAudio [0, 128, 255, 127, 1, 0]))
   \<and> decodeAudio [0, 128, 255, 127, 1, 0] \<noteq> []
   \<and> int16_view (decodeAudio [0, 128, 255, 127, 1, 0]) = [- 32768, 32767, 1]
   \<and> decodeAudioData (decodeAudio [0, 128, 255, 127, 1, 0]) = Inr [- 1, 32767 / 32768, 1 / 32768]
   \<and> (\<exists>samples. decodeAudioData (decodeAudio [0, 128, 255, 127, 1, 0]) = Inr samples
        \<and> length samples = 3 \<and> samples ! 0 = - 1 \<and> - 1 \<le> samples ! 1 \<and> samples ! 1 \<le> 1)"
proof -
  have b: "decodeAudio [0, 128, 255, 127, 1, 0] = [0, 128, 255, 127, 1, 0]"
    by (simp add: decodeAudio_def)
  have e: "even (length [0, 128, 255, 127, 1, 0 :: 8 word])" by simp
  have n: "[0, 128, 255, 127, 1, 0 :: 8 word] \<noteq> []" by simp
  have v: "int16_view [0, 128, 255, 127, 1, 0] = [- 32768, 32767, 1]" by simp
  have d: "decodeAudioData [0, 128, 255, 127, 1, 0] = Inr [- 1, 32767 / 32768, 1 / 32768]"
    by (simp add: decodeAudioData_def Let_def upt_rec)
  from decodeAudioData_normalized [OF e n] d e n v show ?thesis unfolding b by simp
qed

section \<open>The words of a practice story\<close>

lemmas story_defs = generateStoryFromWords_def select_subset_def handleGenerateStory_def

lemma fold_unique:
  "distinct seen \<Longrightarrow>
     distinct (fold (\<lambda>w seen. if w \<in> set seen then seen else seen @ [w]) ws seen)
     \<and> set (fold (\<lambda>w seen. if w \<in> set seen then seen else seen @ [w]) ws seen) = set seen \<union> set ws"
  by (induction ws arbitrary: seen) auto

lemma uniqueWords_distinct: "distinct (uniqueWords items)"
  using fold_unique [of "[]" "map item_word items"] by (simp add: uniqueWords_def)

lemma uniqueWords_set: "set (uniqueWords items) = item_word ` set items"
  using fold_unique [of "[]" "map item_word items"] by (simp add: uniqueWords_def)

lemma words_sent_cases:
  "words_sent (generateStoryFromWords sort_random response words) =
     (if 8 < length words then take 8 (sort_random words) else words)"
  by (simp add: story_defs Let_def)

lemma words_after_cases:
  "words_after (generateStoryFromWords sort_random response words) =
     (if 8 < length words then sort_random words else words)"
  by (simp add: story_defs Let_def)

lemma take_of_permutation:
  assumes "mset ys = mset xs"
  shows "mset (take n ys) \<subseteq># mset xs" and "set (take n ys) \<subseteq> set xs"
    and "distinct xs \<Longrightarrow> distinct (take n ys)"
proof -
  have "mset (take n ys) + mset (drop n ys) = mset xs"
    using assms by (simp flip: mset_append)
  then show "mset (take n ys) \<subseteq># mset xs"
    by (metis mset_subset_eq_add_left)
  then show "set (take n ys) \<subseteq> set xs"
    by (rule set_mset_mono [of "mset (take n ys)" "mset xs", simplified])
  show "distinct (take n ys)" if "distinct xs"
    using that assms by (metis distinct_take mset_eq_imp_distinct_iff)
qed

lemma contains_sep_tail: "\<not> contains_sep (c # w) \<Longrightarrow> \<not> contains_sep w"
  by (cases w) auto

lemma split_comma_word:
  "\<not> contains_sep w \<Longrightarrow> rest = [] \<or> hd rest \<noteq> 0x20 \<Longrightarrow>
     split_comma acc (w @ rest) = split_comma (acc @ w) rest"
proof (induction w arbitrary: acc)
  case Nil
  show ?case by simp
next
  case (Cons c w)
  have no_cut: "\<not> (c = 0x2C \<and> take 1 (w @ rest) = [0x20])"
  proof (cases w)
    case Nil
    with Cons.prems(2) show ?thesis by (cases rest) auto
  next
    case (Cons d w')
    with Cons.prems(1) show ?thesis by auto
  qed
  have "split_comma acc ((c # w) @ rest) = split_comma (acc @ [c]) (w @ rest)"
    by (simp only: append_Cons split_comma.simps no_cut if_False)
  also have "\<dots> = split_comma ((acc @ [c]) @ w) rest"
    using Cons.prems by (intro Cons.IH contains_sep_tail [of c w])
  finally show ?case by simp
qed

lemma split_comma_join:
  "ws \<noteq> [] \<Longrightarrow> \<forall>w \<in> set ws. \<not> contains_sep w \<Longrightarrow>
     split_comma acc (join (str '', '') ws) = (acc @ hd ws) # tl ws"
proof (induction "str '', ''" ws arbitrary: acc rule: join.induct)
  case 1
  then show ?case by simp
next
  case (2 w)
  then show ?case using split_comma_word [of w "[]" acc] by simp
next
  case (3 w v vs)
  have sep: "str '', '' = [0x2C, 0x20]" by (simp add: str_def)
  have "split_comma acc (join (str '', '') (w # v # vs))
          = split_comma acc (w @ ([0x2C, 0x20] @ join (str '', '') (v # vs)))"
    by (simp add: sep)
  also have "\<dots> = split_comma (acc @ w) ([0x2C, 0x20] @ join (str '', '') (v # vs))"
    using "3.prems"(2) by (intro split_comma_word) simp_all
  also have "\<dots> = (acc @ w) # split_comma [] (join (str '', '') (v # vs))"
    by simp
  also have "\<dots> = (acc @ w) # v # vs"
    using "3.hyps" [of "[]"] "3.prems"(2) by simp
  finally show ?case by simp
qed

lemma embedded_story_prompt:
  "embedded_words (story_prompt ws) = split_comma [] (join (str '', '') ws)"
  by (simp add: embedded_words_def story_prompt_def)

lemma embedded_words_read_back:
  assumes "ws \<noteq> []" and "\<forall>w \<in> set ws. \<not> contains_sep w"
  shows "embedded_words (story_prompt ws) = ws"
  using split_comma_join [OF assms, of "[]"] assms(1)
  by (simp add: embedded_story_prompt)

lemma prompt_cases:
  "prompt (generateStoryFromWords sort_random response words) =
     story_prompt (words_sent (generateStoryFromWords sort_random response words))"
  by (simp add: story_defs Let_def)

lemma ten_words_facts: "length ten_words = 10" "distinct ten_words"
  by (simp_all add: ten_words_def str_def)

lemma ten_words_plain: "w \<in> set ten_words \<Longrightarrow> \<not> contains_sep w"
  by (auto simp: ten_words_def str_def)

lemma ten_saved_words: "map item_word (savedItems ten_saved) = ten_words"
  by (simp add: ten_saved_def initial_state_def saved_word_def comp_def)

lemma ten_saved_card: "card (item_word ` set (savedItems ten_saved)) = 10"
  using distinct_card [of ten_words] ten_words_facts
  by (simp flip: ten_saved_words)

text \<open>
  C5. Let every call of \<open>sort\<close> leave a permutation of the array. Then a list of more
  than 8 words puts exactly 8 words into the request and a list of at most 8 words puts
  all of them, in their order; the words of the request are drawn from the list, none
  more often than it occurs there, so distinct words stay distinct. The prompt of the
  request is the fixed text with these words between, joined by comma and space; when
  there is a word and no word holds a comma followed by a space itself, the words read
  back from the prompt are these words. In particular, from a collection with 10
  distinct words \<open>handleGenerateStory\<close> calls the generator with 8 distinct words of the
  collection, and these are the words read back from its prompt.
\<close>

theorem generateStoryFromWords_eight_words:
  assumes "\<And>ws. mset (sort_random ws) = mset ws"
  shows "(8 < length words \<longrightarrow>
            length (words_sent (generateStoryFromWords sort_random response words)) = 8)
         \<and> (length words \<le> 8 \<longrightarrow>
            words_sent (generateStoryFromWords sort_random response words) = words)
         \<and> mset (words_sent (generateStoryFromWords sort_random response words)) \<subseteq># mset words
         \<and> set (words_sent (generateStoryFromWords sort_random response words)) \<subseteq> set words
         \<and> (distinct words \<longrightarrow>
            distinct (words_sent (generateStoryFromWords sort_random response words)))
         \<and> prompt (generateStoryFromWords sort_random response words) =
             prompt_head
             @ join (str '', '') (words_sent (generateStoryFromWords sort_random response words))
             @ prompt_tail
         \<and> (words \<noteq> [] \<and> (\<forall>w. w \<in> set words \<longrightarrow> \<not> contains_sep w) \<longrightarrow>
              embedded_words (prompt (generateStoryFromWords sort_random response words)) =
                words_sent (generateStoryFromWords sort_random response words))
         \<and> (8 < length words \<and> (\<forall>w. w \<in> set words \<longrightarrow> \<not> contains_sep w) \<longrightarrow>
              length (embedded_words (prompt (generateStoryFromWords sort_random response words))) = 8)
         \<and> (card (item_word ` set (savedItems s)) = 10 \<longrightarrow>
              (\<exists>call. snd (handleGenerateStory sort_random response s) = Some call
                 \<and> length (words_sent call) = 8 \<and> distinct (words_sent call)
                 \<and> set (words_sent call) \<subseteq> item_word ` set (savedItems s)
                 \<and> prompt call = prompt_head @ join (str '', '') (words_sent call) @ prompt_tail
                 \<and> ((\<forall>item. item \<in> set (savedItems s) \<longrightarrow> \<not> contains_sep (item_word item))
                      \<longrightarrow> embedded_words (prompt call) = words_sent call)))"
proof -
  let ?call = "generateStoryFromWords sort_random response words"
  have len: "length (sort_random ws) = length ws" for ws
    using assms [of ws] by (rule mset_eq_length)
  have a: "8 < length words \<longrightarrow> length (words_sent ?call) = 8"
    by (simp add: words_sent_cases len)
  have b: "length words \<le> 8 \<longrightarrow> words_sent ?call = words"
    by (simp add: words_sent_cases)
  have c: "mset (words_sent ?call) \<subseteq># mset words"
    by (simp add: words_sent_cases take_of_permutation(1) [OF assms])
  have d: "set (words_sent ?call) \<subseteq> set words"
    by (simp add: words_sent_cases take_of_permutation(2) [OF assms])
  have e: "distinct words \<longrightarrow> distinct (words_sent ?call)"
    by (simp add: words_sent_cases take_of_permutation(3) [OF assms])
  have f: "prompt ?call = prompt_head @ join (str '', '') (words_sent ?call) @ prompt_tail"
    by (simp add: prompt_cases story_prompt_def)
  have sent_ne: "words_sent ?call \<noteq> []" if "words \<noteq> []"
  proof (cases "8 < length words")
    case True
    with a show ?thesis by auto
  next
    case False
    with b that show ?thesis by simp
  qed
  have h: "embedded_words (prompt ?call) = words_sent ?call"
    if "words \<noteq> []" "\<forall>w. w \<in> set words \<longrightarrow> \<not> contains_sep w"
  proof -
    have "\<forall>w \<in> set (words_sent ?call). \<not> contains_sep w"
      using d that(2) by blast
    from embedded_words_read_back [OF sent_ne [OF that(1)] this] show ?thesis
      by (simp only: prompt_cases)
  qed
  have k: "length (embedded_words (prompt ?call)) = 8"
    if "8 < length words" "\<forall>w. w \<in> set words \<longrightarrow> \<not> contains_sep w"
  proof -
    have "words \<noteq> []" using that(1) by auto
    from h [OF this that(2)] a that(1) show ?thesis by simp
  qed
  have g: "\<exists>call. snd (handleGenerateStory sort_random response s) = Some call
                 \<and> length (words_sent call) = 8 \<and> distinct (words_sent call)
                 \<and> set (words_sent call) \<subseteq> item_word ` set (savedItems s)
                 \<and> prompt call = prompt_head @ join (str '', '') (words_sent call) @ prompt_tail
                 \<and> ((\<forall>item. item \<in> set (savedItems s) \<longrightarrow> \<not> contains_sep (item_word item))
                      \<longrightarrow> embedded_words (prompt call) = words_sent call)"
    if ten: "card (item_word ` set (savedItems s)) = 10"
  proof -
    let ?ws = "uniqueWords (savedItems s)"
    let ?c = "generateStoryFromWords sort_random response ?ws"
    have ne: "savedItems s \<noteq> []" using ten by auto
    have l: "length ?ws = 10"
      using ten distinct_card [OF uniqueWords_distinct, of "savedItems s"]
      by (simp add: uniqueWords_set)
    have n8: "length (words_sent ?c) = 8"
      using l by (simp add: words_sent_cases len)
    have sub: "set (words_sent ?c) \<subseteq> item_word ` set (savedItems s)"
      using take_of_permutation(2) [OF assms, of 8 ?ws]
      by (simp add: words_sent_cases uniqueWords_set)
    have "snd (handleGenerateStory sort_random response s) = Some ?c"
      using ne by (simp add: handleGenerateStory_def Let_def)
    moreover have "distinct (words_sent ?c)"
      by (simp add: words_sent_cases take_of_permutation(3) [OF assms] uniqueWords_distinct)
    moreover have "prompt ?c = prompt_head @ join (str '', '') (words_sent ?c) @ prompt_tail"
      by (simp add: prompt_cases story_prompt_def)
    moreover have "embedded_words (prompt ?c) = words_sent ?c"
      if plain: "\<forall>item. item \<in> set (savedItems s) \<longrightarrow> \<not> contains_sep (item_word item)"
    proof -
      have "\<forall>w \<in> set (words_sent ?c). \<not> contains_sep w"
        using sub plain by blast
      moreover have "words_sent ?c \<noteq> []" using n8 by auto
      ultimately have "embedded_words (story_prompt (words_sent ?c)) = words_sent ?c"
        by (intro embedded_words_read_back)
      then show ?thesis
        by (simp only: prompt_cases)
    qed
    ultimately show ?thesis using n8 sub by blast
  qed
  from a b c d e f h k g show ?thesis by blast
qed

text \<open>
  Ten words and a \<open>sort\<close> that reverses: the request carries the last eight of them,
  and the text between the fixed parts of its prompt is these eight words.
\<close>

theorem generateStoryFromWords_eight_words_witness:
  "(\<forall>ws :: jsstring list. mset (rev ws) = mset ws)
   \<and> length ten_words = 10 \<and> distinct ten_words
   \<and> words_sent (generateStoryFromWords rev (Inr None) ten_words) =
        map str [''diez'', ''nueve'', ''ocho'', ''siete'', ''seis'', ''cinco'', ''cuatro'', ''tres'']
   \<and> length (words_sent (generateStoryFromWords rev (Inr None) ten_words)) = 8
   \<and> distinct (words_sent (generateStoryFromWords rev (Inr None) ten_words))
   \<and> prompt (generateStoryFromWords rev (Inr None) ten_words) =
        prompt_head @ str ''diez, nueve, ocho, siete, seis, cinco, cuatro, tres'' @ prompt_tail
   \<and> embedded_words (prompt (generateStoryFromWords rev (Inr None) ten_words)) =
        map str [''diez'', ''nueve'', ''ocho'', ''siete'', ''seis'', ''cinco'', ''cuatro'', ''tres'']
   \<and> length (embedded_words (prompt (generateStoryFromWords rev (Inr None) ten_words))) = 8
   \<and> words_sent (generateStoryFromWords rev (Inr None) (map str [''uno'', ''dos''])) = map str [''uno'', ''dos'']
   \<and> card (item_word ` set (savedItems ten_saved)) = 10
   \<and> (\<exists>call. snd (handleGenerateStory rev (Inr None) ten_saved) = Some call
         \<and> length (words_sent call) = 8 \<and> distinct (words_sent call)
         \<and> embedded_words (prompt call) = words_sent call)"
proof -
  let ?eight = "map str [''diez'', ''nueve'', ''ocho'', ''siete'', ''seis'', ''cinco'', ''cuatro'', ''tres'']"
  have p: "mset (rev ws) = mset ws" for ws :: "jsstring list" by simp
  have v: "words_sent (generateStoryFromWords rev (Inr None) ten_words) = ?eight"
    by (simp add: words_sent_cases ten_words_def)
  have j: "join (str '', '') ?eight = str ''diez, nueve, ocho, siete, seis, cinco, cuatro, tres''"
    by (simp add: str_def)
  have plain: "\<forall>w. w \<in> set ten_words \<longrightarrow> \<not> contains_sep w"
    using ten_words_plain by blast
  have ne: "ten_words \<noteq> []" using ten_words_facts(1) by auto
  have saved_plain: "\<forall>item. item \<in> set (savedItems ten_saved) \<longrightarrow> \<not> contains_sep (item_word item)"
  proof (intro allI impI)
    fix item assume "item \<in> set (savedItems ten_saved)"
    then have "item_word item \<in> set (map item_word (savedItems ten_saved))" by simp
    then show "\<not> contains_sep (item_word item)"
      unfolding ten_saved_words by (rule ten_words_plain)
  qed
  note t = generateStoryFromWords_eight_words [of rev ten_words "Inr None" ten_saved, OF p]
  note u = generateStoryFromWords_eight_words [of rev "map str [''uno'', ''dos'']" "Inr None" ten_saved, OF p]
  from t have pr: "prompt (generateStoryFromWords rev (Inr None) ten_words) =
        prompt_head @ str ''diez, nueve, ocho, siete, seis, cinco, cuatro, tres'' @ prompt_tail"
    unfolding v j by blast
  from t plain ne have em: "embedded_words (prompt (generateStoryFromWords rev (Inr None) ten_words)) = ?eight"
    unfolding v by blast
  from t ten_saved_card saved_plain have ex: "\<exists>call. snd (handleGenerateStory rev (Inr None) ten_saved) = Some call
         \<and> length (words_sent call) = 8 \<and> distinct (words_sent call)
         \<and> embedded_words (prompt call) = words_sent call"
    by blast
  from u have two: "words_sent (generateStoryFromWords rev (Inr None) (map str [''uno'', ''dos''])) = map str [''uno'', ''dos'']"
    by simp
  have l8: "length ?eight = 8" "distinct ?eight" by (simp_all add: str_def)
  from p ten_words_facts ten_saved_card pr ex two l8 show ?thesis
    unfolding v em by simp
qed

text \<open>
  C10. With more than 8 words, the array of the caller is after the call what \<open>sort\<close>
  made of it, the words of the request are its first eight elements, and it is a
  permutation of what was passed when \<open>sort\<close> permutes; with at most 8 words the array
  is as it was passed.
\<close>

theorem generateStoryFromWords_sorts_argument:
  "(8 < length words \<longrightarrow>
      words_after (generateStoryFromWords sort_random response words) = sort_random words
      \<and> words_sent (generateStoryFromWords sort_random response words) =
          take 8 (words_after (generateStoryFromWords sort_random response words)))
   \<and> (mset (sort_random words) = mset words \<longrightarrow>
        mset (words_after (generateStoryFromWords sort_random response words)) = mset words)
   \<and> (length words \<le> 8 \<longrightarrow>
        words_after (generateStoryFromWords sort_random response words) = words)"
  by (simp add: words_sent_cases words_after_cases)

text \<open>
  A call of \<open>sort\<close> that reverses the array leaves the ten words of the caller in
  another order than they were passed in, and two words as they were.
\<close>

theorem generateStoryFromWords_sorts_argument_witness:
  "8 < length ten_words \<and> mset (rev ten_words) = mset ten_words
   \<and> words_after (generateStoryFromWords rev (Inr None) ten_words) = rev ten_words
   \<and> words_after (generateStoryFromWords rev (Inr None) ten_words) \<noteq> ten_words
   \<and> mset (words_after (generateStoryFromWords rev (Inr None) ten_words)) = mset ten_words
   \<and> length (map str [''uno'', ''dos'']) \<le> 8
   \<and> words_after (generateStoryFromWords rev (Inr None) (map str [''uno'', ''dos''])) = map str [''uno'', ''dos'']"
proof -
  have n: "rev ten_words \<noteq> ten_words" by (simp add: ten_words_def str_def)
  from generateStoryFromWords_sorts_argument [of ten_words rev "Inr None"]
    generateStoryFromWords_sorts_argument [of "map str [''uno'', ''dos'']" rev "Inr None"]
    ten_words_facts n
  show ?thesis by simp
qed

section \<open>Rendering the story\<close>

subsection \<open>The regular expression\<close>

lemma braces: "str ''{{'' = [123, 123]" "str ''}}'' = [125, 125]"
  by (simp_all add: str_def)

lemma starts_ends_braces:
  "startsWith p (str ''{{'') \<longleftrightarrow> take 2 p = [123, 123]"
  "endsWith p (str ''}}'') \<longleftrightarrow> 2 \<le> length p \<and> drop (length p - 2) p = [125, 125]"
  by (simp_all add: startsWith_def endsWith_def braces numeral_2_eq_2)

lemma closing_in_tail: "\<not> closing_in (c # w) \<Longrightarrow> \<not> closing_in w"
  by (cases w) auto

lemma closing_in_Cons:
  "closing_in (c # w) \<longleftrightarrow> take 2 (c # w) = [125, 125] \<or> closing_in w"
  by (cases w; cases "tl w") auto

lemma lazy_dot_SomeD:
  "lazy_dot s = Some k \<Longrightarrow>
     \<exists>t r. s = t @ [125, 125] @ r \<and> length t = k \<and> \<not> list_ex is_line_terminator t
            \<and> \<not> closing_in (t @ [125])"
proof (induction s arbitrary: k)
  case Nil
  then show ?case by simp
next
  case (Cons c cs)
  show ?case
  proof (cases "take 2 (c # cs) = [125, 125]")
    case True
    then have "k = 0" using Cons.prems by (simp add: braces)
    moreover have "c # cs = [] @ [125, 125] @ drop 2 (c # cs)"
      using True append_take_drop_id [of 2 "c # cs"] by simp
    ultimately have "c # cs = [] @ [125, 125] @ drop 2 (c # cs) \<and> length ([] :: jsstring) = k
               \<and> \<not> list_ex is_line_terminator [] \<and> \<not> closing_in ([] @ [125])"
      by simp
    then show ?thesis by blast
  next
    case False
    then have nt: "\<not> is_line_terminator c" and "map_option Suc (lazy_dot cs) = Some k"
      using Cons.prems by (simp_all add: braces split: if_splits)
    then obtain k' where k': "lazy_dot cs = Some k'" "k = Suc k'" by auto
    from Cons.IH [OF k'(1)] obtain t r where
      t: "cs = t @ [125, 125] @ r" "length t = k'" "\<not> list_ex is_line_terminator t"
        "\<not> closing_in (t @ [125])" by blast
    have "take 2 (c # t @ [125]) = take 2 (c # cs)"
      unfolding t(1) by (cases t) simp_all
    then have "\<not> closing_in ((c # t) @ [125])"
      using False t(4) by (simp add: closing_in_Cons)
    then have "c # cs = (c # t) @ [125, 125] @ r \<and> length (c # t) = k
               \<and> \<not> list_ex is_line_terminator (c # t) \<and> \<not> closing_in ((c # t) @ [125])"
      using nt k'(2) t by simp
    then show ?thesis by blast
  qed
qed

lemma lazy_dot_first_closing:
  "\<not> list_ex is_line_terminator t \<Longrightarrow> \<not> closing_in (t @ [125]) \<Longrightarrow>
     lazy_dot (t @ [125, 125] @ r) = Some (length t)"
proof (induction t)
  case Nil
  show ?case by (simp add: braces)
next
  case (Cons c t)
  have "take 2 (c # t @ [125]) = take 2 ((c # t) @ [125, 125] @ r)"
    by (cases t) simp_all
  then have "take 2 ((c # t) @ [125, 125] @ r) \<noteq> [125, 125]"
    using Cons.prems(2) by (simp add: closing_in_Cons)
  moreover have "lazy_dot (t @ [125, 125] @ r) = Some (length t)"
    using Cons.prems by (intro Cons.IH) (simp_all add: closing_in_Cons)
  ultimately show ?case using Cons.prems(1) by (simp add: braces)
qed

lemma lazy_dot_complete:
  "\<not> list_ex is_line_terminator t \<Longrightarrow> lazy_dot (t @ [125, 125] @ r) \<noteq> None"
  by (induction t) (simp_all add: braces)

lemma is_marker_iff:
  "is_marker m \<longleftrightarrow>
     (\<exists>t. m = [123, 123] @ t @ [125, 125] \<and> \<not> list_ex is_line_terminator t
           \<and> \<not> closing_in (t @ [125]))"
proof
  assume m: "is_marker m"
  let ?n = "length m"
  have a: "take 2 m = [123, 123]" "drop (?n - 2) m = [125, 125]" "4 \<le> ?n"
    "\<not> list_ex is_line_terminator (slice_2_2 m)" "\<not> closing_in (slice_2_2 m @ [125])"
    using m by (simp_all add: is_marker_def starts_ends_braces)
  have "take (?n - 2) m = take 2 (take (?n - 2) m) @ drop 2 (take (?n - 2) m)"
    by (rule append_take_drop_id [symmetric])
  moreover have "min 2 (?n - 2) = 2"
    using a(3) by arith
  then have "take 2 (take (?n - 2) m) = take 2 m"
    by simp
  ultimately have "take (?n - 2) m = [123, 123] @ slice_2_2 m"
    using a(1) by (simp add: slice_2_2_def)
  then have "m = [123, 123] @ slice_2_2 m @ [125, 125]"
    using append_take_drop_id [of "?n - 2" m] a(2) by simp
  with a(4,5) show "\<exists>t. m = [123, 123] @ t @ [125, 125] \<and> \<not> list_ex is_line_terminator t
           \<and> \<not> closing_in (t @ [125])"
    by blast
next
  assume "\<exists>t. m = [123, 123] @ t @ [125, 125] \<and> \<not> list_ex is_line_terminator t
           \<and> \<not> closing_in (t @ [125])"
  then obtain t where "m = [123, 123] @ t @ [125, 125]" "\<not> list_ex is_line_terminator t"
    "\<not> closing_in (t @ [125])"
    by blast
  then show "is_marker m"
    by (simp add: is_marker_def starts_ends_braces slice_2_2_def)
qed

text \<open>
  The regular expression matches at the start of a text exactly when a marker starts
  there, and the match is that marker.
\<close>

lemma match_marker_SomeD:
  assumes "match_marker s = Some n"
  shows "is_marker (take n s)" and "n \<le> length s" and "4 \<le> n"
proof -
  from assms obtain k where s: "take 2 s = [123, 123]" and k: "lazy_dot (drop 2 s) = Some k"
    and n: "n = k + 4"
    by (auto simp: match_marker_def braces split: if_splits)
  from lazy_dot_SomeD [OF k] obtain t r where
    t: "drop 2 s = t @ [125, 125] @ r" "length t = k" "\<not> list_ex is_line_terminator t"
      "\<not> closing_in (t @ [125])" by blast
  have "s = [123, 123] @ t @ [125, 125] @ r"
    using append_take_drop_id [of 2 s] s t(1) by simp
  then have e: "s = ([123, 123] @ t @ [125, 125]) @ r" "n = length ([123, 123] @ t @ [125, 125])"
    using n t(2) by simp_all
  have "take (length xs) (xs @ ys) = xs" for xs ys :: jsstring
    by simp
  then have "take n s = [123, 123] @ t @ [125, 125]"
    unfolding e .
  with t show "is_marker (take n s)" by (auto simp: is_marker_iff)
  show "n \<le> length s" unfolding e by simp
  show "4 \<le> n" using n by simp
qed

lemma match_marker_is_marker:
  assumes "is_marker m"
  shows "match_marker (m @ r) = Some (length m)"
proof -
  from assms obtain t where m: "m = [123, 123] @ t @ [125, 125]"
    and t: "\<not> list_ex is_line_terminator t" "\<not> closing_in (t @ [125])"
    by (auto simp: is_marker_iff)
  show ?thesis
    using lazy_dot_first_closing [OF t, of r] by (simp add: m match_marker_def braces)
qed

lemma starts_marker_iff: "starts_marker s \<longleftrightarrow> match_marker s \<noteq> None"
proof
  assume "starts_marker s"
  then obtain m r where "s = m @ r" "is_marker m" by (auto simp: starts_marker_def)
  then show "match_marker s \<noteq> None" using match_marker_is_marker [of m r] by simp
next
  assume "match_marker s \<noteq> None"
  then obtain n where n: "match_marker s = Some n" by auto
  have "s = take n s @ drop n s" by simp
  with match_marker_SomeD(1) [OF n] show "starts_marker s"
    unfolding starts_marker_def by blast
qed

lemma starts_marker_braces:
  "\<not> list_ex is_line_terminator t \<Longrightarrow> starts_marker ([123, 123] @ t @ [125, 125] @ r)"
  using lazy_dot_complete [of t r] by (simp add: starts_marker_iff match_marker_def braces)

lemma starts_ends_length:
  assumes "startsWith p (str ''{{'')" and "endsWith p (str ''}}'')"
  shows "4 \<le> length p"
proof (rule ccontr)
  assume "\<not> 4 \<le> length p"
  then consider "p = []" | a where "p = [a]" | a b where "p = [a, b]" | a b c where "p = [a, b, c]"
    by (cases p; cases "tl p"; cases "tl (tl p)"; cases "tl (tl (tl p))") auto
  then show False
    using assms by cases (auto simp: starts_ends_braces)
qed

lemma starts_ends_shape:
  assumes "startsWith p (str ''{{'')" and "endsWith p (str ''}}'')"
  shows "p = [123, 123] @ slice_2_2 p @ [125, 125]"
proof -
  let ?n = "length p"
  have n: "4 \<le> ?n" using assms by (rule starts_ends_length)
  have a: "take 2 p = [123, 123]" "drop (?n - 2) p = [125, 125]"
    using assms by (simp_all add: starts_ends_braces)
  have "take (?n - 2) p = take 2 (take (?n - 2) p) @ drop 2 (take (?n - 2) p)"
    by (rule append_take_drop_id [symmetric])
  moreover have "min 2 (?n - 2) = 2"
    using n by arith
  then have "take 2 (take (?n - 2) p) = take 2 p"
    by simp
  ultimately have "take (?n - 2) p = [123, 123] @ slice_2_2 p"
    using a(1) by (simp add: slice_2_2_def)
  then show ?thesis
    using append_take_drop_id [of "?n - 2" p] a(2) by simp
qed

subsection \<open>The split is the scan\<close>

lemma concat_split_from: "concat (split_from lit s) = lit @ s"
proof (induction lit s rule: split_from.induct)
  case (1 lit)
  show ?case by simp
next
  case (2 lit c cs)
  show ?case
  proof (cases "match_marker (c # cs)")
    case None
    with 2 show ?thesis by simp
  next
    case (Some n)
    from match_marker_SomeD(3) [OF Some] obtain n' where n': "n = Suc n'"
      by (cases n) auto
    have "take n (c # cs) @ drop (n - 1) cs = c # cs"
      unfolding n' by simp
    with 2(2) [OF Some] Some show ?thesis by simp
  qed
qed

lemma length_split_from: "odd (length (split_from lit s))"
  by (induction lit s rule: split_from.induct) (simp_all split: option.splits)

lemma split_from_found:
  "\<forall>j<length lit. \<not> starts_marker (drop j (lit @ s)) \<Longrightarrow> found_by_scan (split_from lit s)"
proof (induction lit s rule: split_from.induct)
  case (1 lit)
  then show ?case by simp
next
  case (2 lit c cs)
  show ?case
  proof (cases "match_marker (c # cs)")
    case None
    then have "\<not> starts_marker (c # cs)" by (simp add: starts_marker_iff)
    then have "\<forall>j<length (lit @ [c]). \<not> starts_marker (drop j ((lit @ [c]) @ cs))"
      using "2.prems" by (auto simp: less_Suc_eq)
    from "2.IH"(1) [OF None this] None show ?thesis by simp
  next
    case (Some n)
    from match_marker_SomeD(3) [OF Some] obtain n' where n': "n = Suc n'"
      by (cases n) auto
    have whole: "take n (c # cs) @ concat (split_from [] (drop (n - 1) cs)) = c # cs"
      unfolding n' by (simp add: concat_split_from)
    have "found_by_scan (split_from [] (drop (n - 1) cs))"
      by (rule "2.IH"(2) [OF Some]) simp
    moreover have "is_marker (take n (c # cs))"
      by (rule match_marker_SomeD(1) [OF Some])
    moreover have "\<forall>j<length lit. \<not> starts_marker
        (drop j (lit @ take n (c # cs) @ concat (split_from [] (drop (n - 1) cs))))"
      unfolding whole using "2.prems" by simp
    ultimately show ?thesis using Some by simp
  qed
qed

lemma split_from_segment:
  "\<forall>j<length l. \<not> starts_marker (drop j (l @ rest)) \<Longrightarrow>
     split_from lit (l @ rest) = split_from (lit @ l) rest"
proof (induction l arbitrary: lit)
  case Nil
  show ?case by simp
next
  case (Cons c l)
  from Cons.prems [rule_format, of 0] have "match_marker (c # l @ rest) = None"
    by (simp add: starts_marker_iff)
  then have "split_from lit ((c # l) @ rest) = split_from (lit @ [c]) (l @ rest)"
    by simp
  also have "\<dots> = split_from ((lit @ [c]) @ l) rest"
  proof (rule Cons.IH, intro allI impI)
    fix j assume "j < length l"
    then show "\<not> starts_marker (drop j (l @ rest))"
      using Cons.prems [rule_format, of "Suc j"] by simp
  qed
  finally show ?case by simp
qed

lemma split_from_marker:
  assumes "is_marker m"
  shows "split_from lit (m @ r) = lit # m # split_from [] r"
proof -
  from assms have "4 \<le> length m" by (simp add: is_marker_def)
  then obtain c cs where m: "m = c # cs" by (cases m) auto
  have "match_marker (c # cs @ r) = Some (Suc (length cs))"
    using match_marker_is_marker [OF assms, of r] by (simp add: m)
  then show ?thesis by (simp add: m)
qed

lemma found_by_scan_split:
  "found_by_scan ps \<Longrightarrow> split_from lit (concat ps) = (lit @ hd ps) # tl ps"
proof (induction ps arbitrary: lit rule: found_by_scan.induct)
  case 1
  then show ?case by simp
next
  case (2 l)
  then have "\<forall>j<length l. \<not> starts_marker (drop j (l @ []))" by simp
  from split_from_segment [OF this, of lit] show ?case by simp
next
  case (3 l m ps)
  then have seg: "\<forall>j<length l. \<not> starts_marker (drop j (l @ m @ concat ps))"
    and m: "is_marker m" and ps: "found_by_scan ps" by simp_all
  have "ps \<noteq> []" using ps by auto
  have "split_from lit (concat (l # m # ps)) = split_from (lit @ l) (m @ concat ps)"
    using split_from_segment [OF seg, of lit] by simp
  also have "\<dots> = (lit @ l) # m # split_from [] (concat ps)"
    by (rule split_from_marker [OF m])
  also have "split_from [] (concat ps) = ps"
    using "3.IH" [OF ps, of "[]"] \<open>ps \<noteq> []\<close> by simp
  finally show ?case by simp
qed

lemma found_by_scan_odd:
  "found_by_scan ps \<Longrightarrow> i < length ps \<Longrightarrow> odd i \<Longrightarrow> is_marker (ps ! i)"
proof (induction ps arbitrary: i rule: found_by_scan.induct)
  case 1
  then show ?case by simp
next
  case (2 l)
  then show ?case by simp
next
  case (3 l m ps)
  from "3.prems"(3) obtain j where j: "i = Suc j" "even j" by (cases i) auto
  show ?case
  proof (cases j)
    case 0
    with j "3.prems"(1) show ?thesis by simp
  next
    case (Suc k)
    with j "3.prems" have "found_by_scan ps" "k < length ps" "odd k" by simp_all
    then have "is_marker (ps ! k)" by (rule "3.IH")
    then show ?thesis using j Suc by simp
  qed
qed

lemma found_by_scan_even:
  "found_by_scan ps \<Longrightarrow> i < length ps \<Longrightarrow> even i \<Longrightarrow> \<not> starts_marker (ps ! i)"
proof (induction ps arbitrary: i rule: found_by_scan.induct)
  case 1
  then show ?case by simp
next
  case (2 l)
  then have i: "i = 0" by simp
  show ?case
  proof (cases l)
    case Nil
    then show ?thesis using i by (simp add: starts_marker_iff match_marker_def braces)
  next
    case (Cons c cs)
    with "2.prems"(1) [simplified, rule_format, of 0] i show ?thesis by simp
  qed
next
  case (3 l m ps)
  show ?case
  proof (cases i)
    case 0
    show ?thesis
    proof (cases l)
      case Nil
      then show ?thesis using 0 by (simp add: starts_marker_iff match_marker_def braces)
    next
      case (Cons c cs)
      have "\<not> starts_marker (l @ m @ concat ps)"
        using "3.prems"(1) Cons by (auto dest: spec [of _ 0])
      moreover have "starts_marker (l @ m @ concat ps)" if "starts_marker l"
        using that unfolding starts_marker_def by (metis append.assoc)
      ultimately show ?thesis using 0 by auto
    qed
  next
    case (Suc k)
    with "3.prems"(3) obtain j where j: "k = Suc j" "even j" by (cases k) auto
    with Suc "3.prems" have "found_by_scan ps" "j < length ps" by simp_all
    from "3.IH" [OF this j(2)] show ?thesis using Suc j by simp
  qed
qed

subsection \<open>The elements of the paragraph\<close>

lemma render_part_marker: "is_marker m \<Longrightarrow> render_part m = QuizBlank (slice_2_2 m)"
  by (simp add: render_part_def is_marker_def)

lemma render_part_plain:
  assumes "\<not> starts_marker p" and "\<not> list_ex is_line_terminator p"
  shows "render_part p = Span p"
proof (rule ccontr)
  assume "render_part p \<noteq> Span p"
  then have se: "startsWith p (str ''{{'')" "endsWith p (str ''}}'')"
    by (auto simp: render_part_def split: if_splits)
  have "\<not> list_ex is_line_terminator (slice_2_2 p)"
    using assms(2) by (auto simp: slice_2_2_def list_ex_iff dest!: in_set_dropD in_set_takeD)
  then have "starts_marker ([123, 123] @ slice_2_2 p @ [125, 125] @ [])"
    by (rule starts_marker_braces)
  then have "starts_marker p"
    using starts_ends_shape [OF se] by simp
  with assms(1) show False by simp
qed

lemma source_text_render_part: "source_text (render_part p) = p"
proof (cases "startsWith p (str ''{{'') \<and> endsWith p (str ''}}'')")
  case False
  then show ?thesis by (auto simp: render_part_def)
next
  case True
  then have "p = [123, 123] @ slice_2_2 p @ [125, 125]"
    using starts_ends_shape by blast
  then show ?thesis using True by (simp add: render_part_def braces)
qed

lemma concat_source_text: "concat (map source_text (map render_part ps)) = concat ps"
  by (induction ps) (simp_all add: source_text_render_part)

lemmas render_defs = renderStoryContent_def split_markers_def match_marker_def str_def
  render_part_def startsWith_def endsWith_def slice_2_2_def is_line_terminator_def

lemma example_render:
  "renderStoryContent (str ''The {{cat}} sat on the {{mat}}.'') =
     [Span (str ''The ''), QuizBlank (str ''cat''), Span (str '' sat on the ''),
      QuizBlank (str ''mat''), Span (str ''.'')]"
  by (simp add: render_defs)

text \<open>
  C8, as the claim states it, fails for a body with a line terminator between braces,
  which the regular expression does not match: alone, such a text is no match, so it is
  one segment of the split, and the renderer makes it a blank; with text around it, it
  stays inside a span, braces and all.
\<close>

theorem renderStoryContent_line_break_in_braces:
  "is_line_terminator 0x0A
   \<and> renderStoryContent (str ''{{a'' @ [0x0A] @ str ''b}}'')
       = [QuizBlank (str ''a'' @ [0x0A] @ str ''b'')]
   \<and> renderStoryContent (str ''x{{a'' @ [0x0A] @ str ''b}}y'')
       = [Span (str ''x{{a'' @ [0x0A] @ str ''b}}y'')]"
  by (simp add: render_defs)

text \<open>
  C8, amended. The renderer scans the body from left to right for markers, where the
  token of a marker holds no line terminator and ends at the first two closing braces
  behind the opening ones, and takes each time the first marker that starts behind the
  one before. The parts of its split are this scan of the body, and no other list of
  parts is; put together, they are the body. Every marker found, the part at an odd
  position, is rendered as one blank whose word is the text between the braces. Every
  segment between them, the part at an even position, is rendered as a span of exactly
  its text, unless it starts with two opening braces and ends with two closing ones,
  which only a segment with a line terminator does. The elements of the paragraph, in
  their order, are the body again when every blank stands for its word in double braces.
  The body \<open>The {{cat}} sat on the {{mat}}.\<close> gives the two blanks and three spans of the
  claim.
\<close>

theorem renderStoryContent_segments:
  "found_by_scan (split_markers body)
   \<and> concat (split_markers body) = body
   \<and> (\<forall>ps. found_by_scan ps \<and> concat ps = body \<longrightarrow> ps = split_markers body)
   \<and> length (renderStoryContent body) = length (split_markers body)
   \<and> (\<forall>i<length (split_markers body).
        (odd i \<longrightarrow> is_marker (split_markers body ! i)
                 \<and> renderStoryContent body ! i = QuizBlank (slice_2_2 (split_markers body ! i)))
        \<and> (even i \<longrightarrow>
              (\<not> (startsWith (split_markers body ! i) (str ''{{'')
                    \<and> endsWith (split_markers body ! i) (str ''}}''))
                 \<longrightarrow> renderStoryContent body ! i = Span (split_markers body ! i))
              \<and> (\<not> list_ex is_line_terminator (split_markers body ! i)
                   \<longrightarrow> renderStoryContent body ! i = Span (split_markers body ! i))))
   \<and> concat (map source_text (renderStoryContent body)) = body
   \<and> renderStoryContent (str ''The {{cat}} sat on the {{mat}}.'') =
       [Span (str ''The ''), QuizBlank (str ''cat''), Span (str '' sat on the ''),
        QuizBlank (str ''mat''), Span (str ''.'')]"
proof -
  have scan: "found_by_scan (split_markers body)"
    unfolding split_markers_def by (rule split_from_found) simp
  have a: "concat (split_markers body) = body"
    by (simp add: split_markers_def concat_split_from)
  have u: "ps = split_markers body" if "found_by_scan ps" "concat ps = body" for ps
  proof -
    have "ps \<noteq> []" using that(1) by auto
    then show ?thesis
      using found_by_scan_split [OF that(1), of "[]"] that(2) by (simp add: split_markers_def)
  qed
  have b: "concat (map source_text (renderStoryContent body)) = body"
    by (simp only: renderStoryContent_def concat_source_text a)
  have c: "length (renderStoryContent body) = length (split_markers body)"
    by (simp add: renderStoryContent_def)
  have e: "is_marker (split_markers body ! i)
           \<and> renderStoryContent body ! i = QuizBlank (slice_2_2 (split_markers body ! i))"
    if "i < length (split_markers body)" "odd i" for i
  proof -
    have "is_marker (split_markers body ! i)"
      using scan that by (rule found_by_scan_odd)
    then show ?thesis using that(1) by (simp add: renderStoryContent_def render_part_marker)
  qed
  have f: "(\<not> (startsWith (split_markers body ! i) (str ''{{'')
                \<and> endsWith (split_markers body ! i) (str ''}}''))
              \<longrightarrow> renderStoryContent body ! i = Span (split_markers body ! i))
           \<and> (\<not> list_ex is_line_terminator (split_markers body ! i)
                \<longrightarrow> renderStoryContent body ! i = Span (split_markers body ! i))"
    if "i < length (split_markers body)" "even i" for i
  proof -
    have "\<not> starts_marker (split_markers body ! i)"
      using scan that by (rule found_by_scan_even)
    then show ?thesis
      using that(1) render_part_plain [of "split_markers body ! i"]
      by (auto simp: renderStoryContent_def render_part_def)
  qed
  from scan a u b c e f example_render show ?thesis by blast
qed

text \<open>
  The body of the claim; a body with two markers in a row, where a list that takes both
  as one marker is no scan; and a body whose first segment holds a line terminator.
\<close>

theorem renderStoryContent_segments_witness:
  "split_markers (str ''The {{cat}} sat on the {{mat}}.'') =
     [str ''The '', str ''{{cat}}'', str '' sat on the '', str ''{{mat}}'', str ''.'']
   \<and> found_by_scan [str ''The '', str ''{{cat}}'', str '' sat on the '', str ''{{mat}}'', str ''.'']
   \<and> is_marker (str ''{{cat}}'')
   \<and> renderStoryContent (str ''The {{cat}} sat on the {{mat}}.'') ! 1 = QuizBlank (str ''cat'')
   \<and> \<not> list_ex is_line_terminator (str ''The '')
   \<and> renderStoryContent (str ''The {{cat}} sat on the {{mat}}.'') ! 0 = Span (str ''The '')
   \<and> concat (map source_text (renderStoryContent (str ''The {{cat}} sat on the {{mat}}.'')))
       = str ''The {{cat}} sat on the {{mat}}.''
   \<and> split_markers (str ''{{a}}{{b}}'') = [[], str ''{{a}}'', [], str ''{{b}}'', []]
   \<and> concat [[], str ''{{a}}{{b}}'', []] = str ''{{a}}{{b}}''
   \<and> \<not> found_by_scan [[], str ''{{a}}{{b}}'', []]
   \<and> list_ex is_line_terminator (str ''a'' @ [0x0A] @ str ''b '')
   \<and> \<not> startsWith (str ''a'' @ [0x0A] @ str ''b '') (str ''{{'')
   \<and> renderStoryContent (str ''a'' @ [0x0A] @ str ''b {{cat}} c'') ! 0
       = Span (str ''a'' @ [0x0A] @ str ''b '')"
proof -
  let ?body = "str ''The {{cat}} sat on the {{mat}}.''"
  let ?two = "str ''{{a}}{{b}}''"
  let ?lines = "str ''a'' @ [0x0A] @ str ''b {{cat}} c''"
  have sp: "split_markers ?body =
     [str ''The '', str ''{{cat}}'', str '' sat on the '', str ''{{mat}}'', str ''.'']"
    by (simp add: split_markers_def match_marker_def str_def is_line_terminator_def)
  have sp2: "split_markers ?two = [[], str ''{{a}}'', [], str ''{{b}}'', []]"
    by (simp add: split_markers_def match_marker_def str_def is_line_terminator_def)
  have sp3: "split_markers ?lines = [str ''a'' @ [0x0A] @ str ''b '', str ''{{cat}}'', str '' c'']"
    by (simp add: split_markers_def match_marker_def str_def is_line_terminator_def)
  have nl: "\<not> list_ex is_line_terminator (str ''The '')"
    by (simp add: str_def is_line_terminator_def)
  have lt: "list_ex is_line_terminator (str ''a'' @ [0x0A] @ str ''b '')"
    by (simp add: str_def is_line_terminator_def)
  have ns: "\<not> startsWith (str ''a'' @ [0x0A] @ str ''b '') (str ''{{'')"
    by (simp add: startsWith_def str_def)
  have sl: "slice_2_2 (str ''{{cat}}'') = str ''cat''"
    by (simp add: slice_2_2_def str_def)
  have cc: "concat [[], ?two, []] = ?two" by simp
  note t = renderStoryContent_segments [of ?body]
  from t have scan: "found_by_scan
      [str ''The '', str ''{{cat}}'', str '' sat on the '', str ''{{mat}}'', str ''.'']"
    unfolding sp by blast
  from t have r: "\<forall>i<length (split_markers ?body).
        (odd i \<longrightarrow> is_marker (split_markers ?body ! i)
                 \<and> renderStoryContent ?body ! i = QuizBlank (slice_2_2 (split_markers ?body ! i)))
        \<and> (even i \<longrightarrow>
              (\<not> (startsWith (split_markers ?body ! i) (str ''{{'')
                    \<and> endsWith (split_markers ?body ! i) (str ''}}''))
                 \<longrightarrow> renderStoryContent ?body ! i = Span (split_markers ?body ! i))
              \<and> (\<not> list_ex is_line_terminator (split_markers ?body ! i)
                   \<longrightarrow> renderStoryContent ?body ! i = Span (split_markers ?body ! i)))"
    by blast
  from r [rule_format, of 1] have one: "is_marker (str ''{{cat}}'')"
    "renderStoryContent ?body ! 1 = QuizBlank (str ''cat'')"
    unfolding sp by (simp_all add: sl)
  from r [rule_format, of 0] have zero: "renderStoryContent ?body ! 0 = Span (str ''The '')"
    unfolding sp using nl by simp
  from t have whole: "concat (map source_text (renderStoryContent ?body)) = ?body"
    by blast
  from renderStoryContent_segments [of ?two]
  have "found_by_scan [[], ?two, []] \<and> concat [[], ?two, []] = ?two
          \<longrightarrow> [[], ?two, []] = split_markers ?two"
    by blast
  then have greedy: "\<not> found_by_scan [[], ?two, []]"
    unfolding sp2 using cc by (auto simp: str_def)
  from renderStoryContent_segments [of ?lines]
  have "\<forall>i<length (split_markers ?lines). even i \<longrightarrow>
           \<not> (startsWith (split_markers ?lines ! i) (str ''{{'')
                \<and> endsWith (split_markers ?lines ! i) (str ''}}''))
           \<longrightarrow> renderStoryContent ?lines ! i = Span (split_markers ?lines ! i)"
    by blast
  from this [rule_format, of 0] have multi:
    "renderStoryContent ?lines ! 0 = Span (str ''a'' @ [0x0A] @ str ''b '')"
    unfolding sp3 using ns by simp
  from sp scan one nl zero whole sp2 cc greedy lt ns multi show ?thesis
    by (intro conjI)
qed

end
